theory Spec2Isabelle
  imports Main "HOL-Library.Sublist" "HOL-Library.AList"
begin

section \<open>Strings\<close>

text \<open>
  A Python \<open>str\<close> is modelled as a \<open>string\<close> (a list of 8-bit characters), each
  character read as a Unicode code point below 256. On such text
  \<^item> \<open>p in s\<close> is \<open>sublist p s\<close>, \<open>s.startswith(p)\<close> is \<open>prefix p s\<close> and
    \<open>s.endswith(p)\<close> is \<open>suffix p s\<close>;
  \<^item> \<open>s.lower()\<close> maps \<open>A..Z\<close> and the Latin-1 capitals to their small letters;
  \<^item> \<open>s.strip()\<close> removes the code points for which \<open>str.isspace\<close> holds.
\<close>

definition py_in :: "string \<Rightarrow> string \<Rightarrow> bool" where
  "py_in p s = sublist p s"

definition startswith :: "string \<Rightarrow> string \<Rightarrow> bool" where
  "startswith s p = prefix p s"

definition endswith :: "string \<Rightarrow> string \<Rightarrow> bool" where
  "endswith s p = suffix p s"

definition lower_char :: "char \<Rightarrow> char" where
  "lower_char c =
     (let n = (of_char c :: nat) in
      if (65 \<le> n \<and> n \<le> 90) \<or> (192 \<le> n \<and> n \<le> 222 \<and> n \<noteq> 215)
      then char_of (n + 32) else c)"

definition lower :: "string \<Rightarrow> string" where
  "lower s = map lower_char s"

definition isspace :: "char \<Rightarrow> bool" where
  "isspace c =
     (let n = (of_char c :: nat) in
      (9 \<le> n \<and> n \<le> 13) \<or> (28 \<le> n \<and> n \<le> 32) \<or> n = 133 \<or> n = 160)"

definition lstrip :: "string \<Rightarrow> string" where
  "lstrip s = dropWhile isspace s"

definition rstrip :: "string \<Rightarrow> string" where
  "rstrip s = rev (dropWhile isspace (rev s))"

definition strip :: "string \<Rightarrow> string" where
  "strip s = rstrip (lstrip s)"

text \<open>\<open>s.split('\n')\<close>: one piece more than there are newlines, \<open>['']\<close> for the empty string.\<close>

fun split_nl :: "string \<Rightarrow> string list" where
  "split_nl [] = [[]]"
| "split_nl (c # cs) =
     (if c = CHR 0x0A then [] # split_nl cs
      else (case split_nl cs of [] \<Rightarrow> [[c]] | l # ls \<Rightarrow> (c # l) # ls))"

text \<open>\<open>'\n'.join(lines)\<close>.\<close>

fun join_nl :: "string list \<Rightarrow> string" where
  "join_nl [] = []"
| "join_nl [l] = l"
| "join_nl (l # ls) = l @ CHR 0x0A # join_nl ls"

text \<open>\<open>str(n)\<close> for a Python int.\<close>

fun str_nat :: "nat \<Rightarrow> string" where
  "str_nat n =
     (if n < 10 then [char_of (48 + n)]
      else str_nat (n div 10) @ [char_of (48 + n mod 10)])"

definition str_int :: "int \<Rightarrow> string" where
  "str_int i = (if i < 0 then CHR ''-'' # str_nat (nat (- i)) else str_nat (nat i))"

section \<open>The sanitizer: \<open>clean_generated_code\<close>\<close>

definition explanation_phrases :: "string list" where
  "explanation_phrases = [''this code'', ''the above'', ''explanation:'', ''note:'']"

definition is_explanation :: "string \<Rightarrow> bool" where
  "is_explanation line = list_ex (\<lambda>phrase. py_in phrase (lower line)) explanation_phrases"

text \<open>The \<open>for line in lines\<close> loop with its \<open>break\<close>: the lines before the first
  explanation line.\<close>

fun cleaned_lines :: "string list \<Rightarrow> string list" where
  "cleaned_lines [] = []"
| "cleaned_lines (line # lines) =
     (if is_explanation line then [] else line # cleaned_lines lines)"

definition strip_fences :: "string \<Rightarrow> string" where
  "strip_fences code_str =
     (let s1 = (if startswith code_str ''```python'' then drop 9 code_str else code_str);
          s2 = (if startswith s1 ''```'' then drop 3 s1 else s1);
          s3 = (if endswith s2 ''```'' then take (length s2 - 3) s2 else s2)
      in s3)"

definition clean_generated_code :: "string \<Rightarrow> string" where
  "clean_generated_code code_str =
     strip (join_nl (cleaned_lines (split_nl (strip_fences code_str))))"

text \<open>Input the sanitizer has nothing to remove from: no fence marker at either end
  and no explanation phrase on any line.\<close>

definition fenced :: "string \<Rightarrow> bool" where
  "fenced s \<longleftrightarrow> startswith s ''```'' \<or> endswith s ''```''"

definition already_clean :: "string \<Rightarrow> bool" where
  "already_clean s \<longleftrightarrow>
     \<not> fenced s \<and> list_all (\<lambda>line. \<not> is_explanation line) (split_nl s)"

section \<open>The error classifier\<close>

text \<open>
  The \<open>if\<close>/\<open>elif\<close> chain of the \<open>except\<close> branch of \<open>auto_backtest\<close>. The source only
  builds the text \<open>last_error\<close>; the tag names the branch taken, with the names the
  specification gives to the categories.
\<close>

datatype category = ShapeMismatch | IndexingError | DataUnavailable | SyntaxError | Other

definition shape_hint :: string where
  "shape_hint = ''\<newline>Ensure entries and exits have same shape as close by adding:\<newline>entries = entries.reindex(index=close.index, columns=close.columns, fill_value=False)\<newline>exits = exits.reindex(index=close.index, columns=close.columns, fill_value=False)''"

definition indexing_hint :: string where
  "indexing_hint = ''\<newline>Avoid using .loc[] with boolean series directly. Use .multiply() method instead for applying conditions across DataFrame.''"

definition ticker_hint :: string where
  "ticker_hint = ''\<newline>Use '^CRSLDX' for Nifty 500 index data, not other symbols.''"

definition syntax_hint :: string where
  "syntax_hint = ''\<newline>Check for invalid method calls on literals (e.g., use (100).div() not 100.div()) or use standard operators like / instead of .div()''"

definition classify :: "string \<Rightarrow> category \<times> string" where
  "classify error_str =
     (if py_in ''shape'' error_str \<and> py_in ''doesn't match'' error_str
        then (ShapeMismatch, ''Shape mismatch error: '' @ error_str @ shape_hint)
      else if py_in ''KeyError'' error_str \<and> py_in ''None of'' error_str
        then (IndexingError, ''Indexing error: '' @ error_str @ indexing_hint)
      else if py_in ''YFPricesMissingError'' error_str \<or> py_in ''No data found'' error_str
        then (DataUnavailable, ''Invalid ticker symbol: '' @ error_str @ ticker_hint)
      else if py_in ''SyntaxError'' error_str
        then (SyntaxError, ''Python syntax error: '' @ error_str @ syntax_hint)
      else (Other, ''Error: '' @ error_str))"

text \<open>
  The classifier as the specification describes it: rules (test, category, prefix,
  hint) in priority order, the first rule whose test holds deciding, and a catch-all
  that passes the message on.
\<close>

type_synonym rule = "(string \<Rightarrow> bool) \<times> category \<times> string \<times> string"

definition classifier_rules :: "rule list" where
  "classifier_rules =
     [(\<lambda>e. py_in ''shape'' e \<and> py_in ''doesn't match'' e,
       ShapeMismatch, ''Shape mismatch error: '', shape_hint),
      (\<lambda>e. py_in ''KeyError'' e \<and> py_in ''None of'' e,
       IndexingError, ''Indexing error: '', indexing_hint),
      (\<lambda>e. py_in ''YFPricesMissingError'' e \<or> py_in ''No data found'' e,
       DataUnavailable, ''Invalid ticker symbol: '', ticker_hint),
      (\<lambda>e. py_in ''SyntaxError'' e,
       SyntaxError, ''Python syntax error: '', syntax_hint)]"

definition first_match :: "rule list \<Rightarrow> string \<Rightarrow> category \<times> string" where
  "first_match rules e =
     (case find (\<lambda>(test, cat, pre, hint). test e) rules of
        Some (test, cat, pre, hint) \<Rightarrow> (cat, pre @ e @ hint)
      | None \<Rightarrow> (Other, ''Error: '' @ e))"

section \<open>Exceptions\<close>

text \<open>
  An exception is its class name and its message, \<open>str(e)\<close>. \<open>Exc\<close> is an instance
  of \<open>Exception\<close>, which \<open>except Exception\<close> catches; \<open>Exit\<close> is one that is no
  \<open>Exception\<close> (\<open>SystemExit\<close>, \<open>KeyboardInterrupt\<close>), which \<open>except Exception\<close> lets
  through.
\<close>

datatype exn = Exc string string | Exit string string

fun str_exn :: "exn \<Rightarrow> string" where
  "str_exn (Exc cls msg) = msg"
| "str_exn (Exit cls msg) = msg"

fun is_exception :: "exn \<Rightarrow> bool" where
  "is_exception (Exc cls msg) = True"
| "is_exception (Exit cls msg) = False"

section \<open>Tables\<close>

text \<open>
  A pandas \<open>DataFrame\<close>: the row labels, the column labels and the cells row by row.
  A column label of the two-level column index that \<open>yf.download(..., group_by="ticker")\<close>
  returns is a pair (ticker, field). The model never computes on prices, so a numeric
  cell keeps an integer in place of the stored number.
\<close>

datatype label = IntL int | StrL string | TupL string string

datatype cellv = BoolV bool | NumV int | NaN

record frame =
  index :: "label list"
  columns :: "label list"
  rows :: "cellv list list"

definition shape :: "frame \<Rightarrow> nat \<times> nat" where
  "shape df = (length (index df), length (columns df))"

definition wf_frame :: "frame \<Rightarrow> bool" where
  "wf_frame df \<longleftrightarrow>
     length (rows df) = length (index df) \<and>
     list_all (\<lambda>r. length r = length (columns df)) (rows df)"

fun position :: "'a \<Rightarrow> 'a list \<Rightarrow> nat option" where
  "position x [] = None"
| "position x (y # ys) =
     (if x = y then Some 0 else map_option Suc (position x ys))"

text \<open>The cell at a row label and a column label (\<open>df.at[i, c]\<close> on unique labels).\<close>

definition at :: "frame \<Rightarrow> label \<Rightarrow> label \<Rightarrow> cellv option" where
  "at df i c =
     (case (position i (index df), position c (columns df)) of
        (Some r, Some k) \<Rightarrow>
          (if r < length (rows df) \<and> k < length (rows df ! r)
           then Some (rows df ! r ! k) else None)
      | _ \<Rightarrow> None)"

text \<open>
  Reindexing one axis: the entries \<open>xs\<close>, labelled \<open>src\<close>, are rearranged to the labels
  \<open>tgt\<close>. An axis that already equals its target is left as it is; otherwise each
  target label takes the entry at the position of that label in \<open>src\<close>, or \<open>fill\<close> if
  the label is not there.
\<close>

definition take_axis :: "'a list \<Rightarrow> label list \<Rightarrow> label list \<Rightarrow> 'a \<Rightarrow> 'a list" where
  "take_axis xs src tgt fill =
     (if src = tgt then xs
      else map (\<lambda>l. case position l src of
                       Some p \<Rightarrow> (if p < length xs then xs ! p else fill)
                     | None \<Rightarrow> fill) tgt)"

text \<open>
  \<open>df.reindex(index=idx, columns=cols, fill_value=fill)\<close>: the table on the new labels,
  a cell taken from \<open>df\<close> where both labels exist there and \<open>fill\<close> elsewhere. pandas
  refuses to reindex an axis that has duplicate labels, unless the axis already equals
  its target.
\<close>

definition reindex :: "frame \<Rightarrow> label list \<Rightarrow> label list \<Rightarrow> cellv \<Rightarrow> exn + frame" where
  "reindex df idx cols fill =
     (if (index df \<noteq> idx \<and> \<not> distinct (index df)) \<or>
         (columns df \<noteq> cols \<and> \<not> distinct (columns df))
      then Inl (Exc ''ValueError'' ''cannot reindex on an axis with duplicate labels'')
      else Inr \<lparr>index = idx, columns = cols,
                rows = take_axis (map (\<lambda>row. take_axis row (columns df) cols fill) (rows df))
                         (index df) idx (replicate (length cols) fill)\<rparr>)"

text \<open>\<open>pd.DataFrame(v, index=idx, columns=cols)\<close>.\<close>

definition full_frame :: "cellv \<Rightarrow> label list \<Rightarrow> label list \<Rightarrow> frame" where
  "full_frame v idx cols =
     \<lparr>index = idx, columns = cols,
      rows = replicate (length idx) (replicate (length cols) v)\<rparr>"

text \<open>\<open>df.iloc[n] = v\<close>: the whole row at offset \<open>n\<close> is set; \<open>iloc\<close> does not enlarge.\<close>

definition iloc_set_row :: "frame \<Rightarrow> nat \<Rightarrow> cellv \<Rightarrow> exn + frame" where
  "iloc_set_row df n v =
     (if n < length (index df)
      then Inr (df\<lparr>rows := (rows df)[n := replicate (length (columns df)) v]\<rparr>)
      else Inl (Exc ''IndexError'' ''iloc cannot enlarge its target object''))"

fun is_tup :: "label \<Rightarrow> bool" where
  "is_tup (TupL t f) = True"
| "is_tup _ = False"

fun close_ticker :: "label \<Rightarrow> label option" where
  "close_ticker (TupL t f) = (if f = ''Close'' then Some (StrL t) else None)"
| "close_ticker _ = None"

text \<open>\<open>raw.xs('Close', axis=1, level=1)\<close>: the columns whose field is \<open>Close\<close>, labelled
  by their ticker.\<close>

definition xs_close :: "frame \<Rightarrow> exn + frame" where
  "xs_close raw =
     (if \<not> list_all is_tup (columns raw)
        then Inl (Exc ''TypeError'' ''Index must be a MultiIndex'')
      else if List.map_filter close_ticker (columns raw) = []
        then Inl (Exc ''KeyError'' (CHR 0x27 # ''Close'' @ [CHR 0x27]))
      else Inr \<lparr>index = index raw,
                columns = List.map_filter close_ticker (columns raw),
                rows = map (\<lambda>row. map snd (filter (\<lambda>(c, v). close_ticker c \<noteq> None)
                                                 (zip (columns raw) row))) (rows raw)\<rparr>)"

definition count_true :: "frame \<Rightarrow> nat" where
  "count_true df = length (filter (\<lambda>v. v = BoolV True) (concat (rows df)))"

section \<open>Namespaces\<close>

text \<open>
  A Python object bound to a name: a \<open>DataFrame\<close>, a module, the builtins of the
  running process, or another object, of which only the name of its type is kept. The
  dictionary \<open>env\<close> of local names and the dictionary of globals are association lists;
  \<open>k in env\<close> is \<open>map_of env k \<noteq> None\<close> and an assignment is \<open>AList.update\<close>.
\<close>

datatype pyval = DataFrame frame | Module string | Builtins | Object string

type_synonym namespace = "(string \<times> pyval) list"

type_synonym globals = "(string \<times> pyval) list"

text \<open>The dictionary \<open>preloaded_globals\<close> as it is built before the loop.\<close>

definition preloaded_globals :: globals where
  "preloaded_globals =
     [(''__builtins__'', Builtins),
      (''pd'', Module ''pandas''),
      (''yf'', Module ''yfinance''),
      (''vbt'', Module ''vectorbt''),
      (''np'', Module ''numpy'')]"

text \<open>How code run by \<open>exec(code, g, env)\<close> reads a name: the local names first, then
  the globals. (The builtins, searched last, define neither \<open>raw\<close> nor \<open>pd\<close>.)\<close>

definition lookup_name :: "globals \<Rightarrow> namespace \<Rightarrow> string \<Rightarrow> pyval option" where
  "lookup_name g env k = (case map_of env k of Some v \<Rightarrow> Some v | None \<Rightarrow> map_of g k)"

definition name_error :: "string \<Rightarrow> exn" where
  "name_error k = Exc ''NameError'' (''name '' @ [CHR 0x27] @ k @ [CHR 0x27] @ '' is not defined'')"

text \<open>How the message of an \<open>AttributeError\<close> names the object. In the main program,
  which \<open>app.py\<close> is run as, \<open>__builtins__\<close> is the module \<open>builtins\<close>.\<close>

fun describe :: "pyval \<Rightarrow> string" where
  "describe (DataFrame df) = [CHR 0x27] @ ''DataFrame'' @ [CHR 0x27] @ '' object''"
| "describe (Module n) = ''module '' @ [CHR 0x27] @ n @ [CHR 0x27]"
| "describe Builtins = ''module '' @ [CHR 0x27] @ ''builtins'' @ [CHR 0x27]"
| "describe (Object ty) = [CHR 0x27] @ ty @ [CHR 0x27] @ '' object''"

definition no_attribute :: "pyval \<Rightarrow> string \<Rightarrow> exn" where
  "no_attribute v a =
     Exc ''AttributeError'' (describe v @ '' has no attribute '' @ [CHR 0x27] @ a @ [CHR 0x27])"

text \<open>The allow-list in the specification's words: the raw price table and the
  numeric-table, data-fetch and backtest-simulation library bindings.\<close>

definition spec_allow_list :: "string list" where
  "spec_allow_list = [''raw'', ''pd'', ''np'', ''yf'', ''vbt'']"

definition visible_names :: "globals \<Rightarrow> namespace \<Rightarrow> string set" where
  "visible_names g env = set (map fst g) \<union> set (map fst env)"

text \<open>The table bound to a name, if one is.\<close>

definition bound_frame :: "namespace \<Rightarrow> string \<Rightarrow> frame option" where
  "bound_frame env k = (case map_of env k of Some (DataFrame df) \<Rightarrow> Some df | _ \<Rightarrow> None)"

section \<open>Validation and repair\<close>

definition fix_shape :: "frame \<Rightarrow> frame \<Rightarrow> exn + frame" where
  "fix_shape close t =
     (if shape t \<noteq> shape close
      then reindex t (index close) (columns close) (BoolV False)
      else Inr t)"

definition validate :: "namespace \<Rightarrow> exn + frame \<times> frame \<times> frame" where
  "validate env =
     (case (map_of env ''close'', map_of env ''entries'', map_of env ''exits'') of
        (Some close, Some entries, Some exits) \<Rightarrow>
          (case close of
             DataFrame c \<Rightarrow>
          (case entries of
             DataFrame e \<Rightarrow>
          (case exits of
             DataFrame x \<Rightarrow>
          (case fix_shape c e of
             Inl err \<Rightarrow> Inl err
           | Inr e' \<Rightarrow>
          (case fix_shape c x of
             Inl err \<Rightarrow> Inl err
           | Inr x' \<Rightarrow> Inr (c, e', x')))
           | _ \<Rightarrow> Inl (Exc ''ValueError'' (CHR 0x27 # ''exits' must be a pandas DataFrame'')))
           | _ \<Rightarrow> Inl (Exc ''ValueError'' (CHR 0x27 # ''entries' must be a pandas DataFrame'')))
           | _ \<Rightarrow> Inl (Exc ''ValueError'' (CHR 0x27 # ''close' must be a pandas DataFrame'')))
      | _ \<Rightarrow> Inl (Exc ''ValueError''
                 ''Generated code must define 'close', 'entries', and 'exits' variables''))"

text \<open>A table \<open>t'\<close> is \<open>t\<close> reindexed onto \<open>close\<close> with fill value \<open>False\<close>: it has the
  labels of \<open>close\<close>, a cell whose two labels exist in \<open>t\<close> has the value it has there,
  and every other cell is \<open>False\<close>.\<close>

definition reindexed_onto :: "frame \<Rightarrow> frame \<Rightarrow> frame \<Rightarrow> bool" where
  "reindexed_onto close t t' \<longleftrightarrow>
     index t' = index close \<and> columns t' = columns close \<and> wf_frame t' \<and>
     (\<forall>i\<in>set (index close). \<forall>k\<in>set (columns close).
        at t' i k = (if i \<in> set (index t) \<and> k \<in> set (columns t)
                     then at t i k else Some (BoolV False)))"

text \<open>What the validator does with one signal table: a table of the shape of \<open>close\<close>
  is passed on as it is, any other is reindexed onto \<open>close\<close>.\<close>

definition repaired :: "frame \<Rightarrow> frame \<Rightarrow> frame \<Rightarrow> bool" where
  "repaired close t t' \<longleftrightarrow>
     shape t' = shape close \<and>
     (if shape t = shape close then t' = t else reindexed_onto close t t')"

definition unique_labels :: "frame \<Rightarrow> bool" where
  "unique_labels df \<longleftrightarrow> distinct (index df) \<and> distinct (columns df)"

section \<open>The fallback strategy\<close>

text \<open>
  The four statements of \<open>fallback_code\<close>, executed by \<open>exec\<close> in the globals \<open>g\<close> and
  the local names \<open>env\<close>. The code reads the names \<open>raw\<close> and \<open>pd\<close>, which earlier
  generated code may have rebound, and assigns local names only. A statement that
  raises leaves the bindings of the statements before it. Only the module pandas is
  taken to have the attribute \<open>DataFrame\<close>, and only a \<open>DataFrame\<close> the attribute \<open>xs\<close>.
\<close>

definition exec_fallback :: "globals \<Rightarrow> namespace \<Rightarrow> namespace \<times> exn option" where
  "exec_fallback g env =
     (case lookup_name g env ''raw'' of
        None \<Rightarrow> (env, Some (name_error ''raw''))
      | Some (DataFrame raw) \<Rightarrow>
          (case xs_close raw of
             Inl e \<Rightarrow> (env, Some e)
           | Inr close \<Rightarrow>
               (let env1 = AList.update ''close'' (DataFrame close) env in
                case lookup_name g env1 ''pd'' of
                  None \<Rightarrow> (env1, Some (name_error ''pd''))
                | Some (Module n) \<Rightarrow>
                    (if n = ''pandas''
                     then (let entries = full_frame (BoolV False) (index close) (columns close);
                               env2 = AList.update ''entries'' (DataFrame entries) env1;
                               exits = full_frame (BoolV False) (index close) (columns close);
                               env3 = AList.update ''exits'' (DataFrame exits) env2
                           in case iloc_set_row entries 10 (BoolV True) of
                                Inl e \<Rightarrow> (env3, Some e)
                              | Inr entries' \<Rightarrow>
                                  (AList.update ''entries'' (DataFrame entries') env3, None))
                     else (env1, Some (no_attribute (Module n) ''DataFrame'')))
                | Some v \<Rightarrow> (env1, Some (no_attribute v ''DataFrame''))))
      | Some v \<Rightarrow> (env, Some (no_attribute v ''xs'')))"

section \<open>The outside world\<close>

text \<open>
  What \<open>auto_backtest\<close> calls and does not define: the environment variable
  \<open>OPENAI_API_KEY\<close>; \<open>pd.read_csv(path)['Symbol']\<close> (the column, \<open>None\<close> for a missing
  value); Python's \<open>str.upper\<close>; \<open>yf.download\<close>; the completion call, which answers
  the prompt of attempt \<open>n\<close> with text or raises; \<open>exec\<close> of generated code at attempt
  \<open>n\<close> in the globals and the local names given, which leaves both dictionaries as
  the code changed them and may raise; \<open>vbt.Portfolio.from_signals\<close> on the three
  tables, the cash, the size and the \<open>group_by\<close> list (fees, size type and cash sharing
  are constants of the source). \<open>instructions\<close> is the fixed text of \<open>base_prompt\<close>
  before the user's strategy.
\<close>

record ('f, 'pf) world =
  api_key :: "string option"
  read_csv :: "string \<Rightarrow> exn + string option list"
  str_upper :: "string \<Rightarrow> string"
  download :: "string list \<Rightarrow> string \<Rightarrow> string \<Rightarrow> exn + pyval"
  chat_completion :: "int \<Rightarrow> string \<Rightarrow> exn + string"
  exec_code :: "int \<Rightarrow> string \<Rightarrow> globals \<Rightarrow> namespace \<Rightarrow> globals \<times> namespace \<times> exn option"
  from_signals :: "frame \<Rightarrow> frame \<Rightarrow> frame \<Rightarrow> 'f \<Rightarrow> 'f \<Rightarrow> string list \<Rightarrow> exn + 'pf"
  instructions :: string

text \<open>The calls made to the outside world, in order. An \<open>exec\<close> is recorded with the
  globals and the local names it is given.\<close>

datatype event =
    EvReadCsv string
  | EvDownload "string list" string string
  | EvGenerate string
  | EvExec int string globals namespace
  | EvSimulate frame frame frame
  | EvFallback globals namespace

fun is_generate :: "event \<Rightarrow> bool" where
  "is_generate (EvGenerate p) = True"
| "is_generate _ = False"

fun is_fallback :: "event \<Rightarrow> bool" where
  "is_fallback (EvFallback g ns) = True"
| "is_fallback _ = False"

fun is_exec :: "event \<Rightarrow> bool" where
  "is_exec (EvExec a code g ns) = True"
| "is_exec _ = False"

definition gen_count :: "event list \<Rightarrow> nat" where
  "gen_count tr = length (filter is_generate tr)"

definition before_fallback :: "event list \<Rightarrow> event list" where
  "before_fallback tr = takeWhile (\<lambda>ev. \<not> is_fallback ev) tr"

text \<open>
  The two dictionaries as an \<open>exec\<close> left them, and the property of a sequence of calls
  that every \<open>exec\<close>, of generated code or of the fallback code, is given the two
  dictionaries exactly as the \<open>exec\<close> before it left them (\<open>cur\<close>, when there was one).
\<close>

definition left_by :: "('f, 'pf) world \<Rightarrow> int \<Rightarrow> string \<Rightarrow> globals \<Rightarrow> namespace
    \<Rightarrow> globals \<times> namespace" where
  "left_by w a code g ns = (fst (exec_code w a code g ns), fst (snd (exec_code w a code g ns)))"

fun chained_from :: "('f, 'pf) world \<Rightarrow> (globals \<times> namespace) option \<Rightarrow> event list \<Rightarrow> bool" where
  "chained_from w cur [] = True"
| "chained_from w cur (EvExec a code g ns # tr) =
     ((case cur of None \<Rightarrow> True | Some c \<Rightarrow> (g, ns) = c) \<and>
      chained_from w (Some (left_by w a code g ns)) tr)"
| "chained_from w cur (EvFallback g ns # tr) =
     ((case cur of None \<Rightarrow> True | Some c \<Rightarrow> (g, ns) = c) \<and> chained_from w cur tr)"
| "chained_from w cur (ev # tr) = chained_from w cur tr"

fun cur_after :: "('f, 'pf) world \<Rightarrow> (globals \<times> namespace) option \<Rightarrow> event list
    \<Rightarrow> (globals \<times> namespace) option" where
  "cur_after w cur [] = cur"
| "cur_after w cur (EvExec a code g ns # tr) = cur_after w (Some (left_by w a code g ns)) tr"
| "cur_after w cur (ev # tr) = cur_after w cur tr"

datatype 'pf outcome = Return "'pf option" | Raise exn

section \<open>The ticker universe\<close>

text \<open>\<open>dropna()\<close>, and \<open>unique()\<close>, which keeps the first occurrence of each value.\<close>

definition dropna :: "'a option list \<Rightarrow> 'a list" where
  "dropna col = List.map_filter (\<lambda>v. v) col"

definition unique :: "'a list \<Rightarrow> 'a list" where
  "unique xs = rev (remdups (rev xs))"

definition ns_suffix :: "string \<Rightarrow> string" where
  "ns_suffix symbol = (if endswith symbol ''.NS'' then symbol else symbol @ ''.NS'')"

section \<open>\<open>auto_backtest\<close>\<close>

definition base_prompt :: "string \<Rightarrow> string \<Rightarrow> string" where
  "base_prompt instr user_prompt =
     instr @ ''USER STRATEGY: '' @ [CHR 0x22] @ user_prompt @ [CHR 0x22] @
     ''\<newline>\<newline>Generate ONLY the code (no explanations, no markdown):''"

definition build_prompt :: "string \<Rightarrow> string option \<Rightarrow> string \<Rightarrow> int \<Rightarrow> string" where
  "build_prompt base code_str last_error attempt =
     (case code_str of
        None \<Rightarrow> base
      | Some code \<Rightarrow>
          base @ ''\<newline># Previous code:\<newline>'' @ code @
          ''\<newline># Error on attempt '' @ str_int (attempt - 1) @ '':\<newline>'' @ last_error @
          ''\<newline># Please correct and output only corrected code.'')"

text \<open>The body of \<open>try\<close>: \<open>exec\<close>, the checks and the repair, the simulation. It gives
  the globals and the local names as \<open>exec\<close> left them, the portfolio or the exception
  raised, and the calls made.\<close>

definition try_block ::
  "('f, 'pf) world \<Rightarrow> int \<Rightarrow> string \<Rightarrow> globals \<Rightarrow> namespace \<Rightarrow> 'f \<Rightarrow> 'f
     \<Rightarrow> globals \<times> namespace \<times> (exn + 'pf) \<times> event list" where
  "try_block w attempt code g env total_cash size' =
     (case exec_code w attempt code g env of
        (g', env', Some e) \<Rightarrow> (g', env', Inl e, [EvExec attempt code g env])
      | (g', env', None) \<Rightarrow>
          (case validate env' of
             Inl e \<Rightarrow> (g', env', Inl e, [EvExec attempt code g env])
           | Inr (close, entries, exits) \<Rightarrow>
               (g', env',
                from_signals w close entries exits total_cash size'
                  (replicate (snd (shape close)) ''basket''),
                [EvExec attempt code g env, EvSimulate close entries exits])))"

text \<open>
  The inner \<open>try\<close> of the last attempt, with its \<open>except Exception\<close>: \<open>Inr (Some pf)\<close>
  when the fallback returns a portfolio, \<open>Inr None\<close> when control falls through to the
  final \<open>raise\<close>, \<open>Inl e\<close> when an exception that is no \<open>Exception\<close> passes the handler.
  The last case of the tables cannot occur after \<open>exec_fallback\<close> has succeeded; reading
  \<open>shape\<close> of another object is taken to raise.
\<close>

definition run_fallback ::
  "('f, 'pf) world \<Rightarrow> globals \<Rightarrow> namespace \<Rightarrow> 'f \<Rightarrow> 'f \<Rightarrow> (exn + 'pf option) \<times> event list" where
  "run_fallback w g env total_cash size' =
     (case exec_fallback g env of
        (env', Some e) \<Rightarrow>
          (if is_exception e then Inr None else Inl e, [EvFallback g env])
      | (env', None) \<Rightarrow>
          (if map_of env' ''close'' \<noteq> None \<and> map_of env' ''entries'' \<noteq> None \<and>
              map_of env' ''exits'' \<noteq> None
           then (case (map_of env' ''close'', map_of env' ''entries'', map_of env' ''exits'') of
                   (Some (DataFrame close), Some (DataFrame entries), Some (DataFrame exits)) \<Rightarrow>
                     (case from_signals w close entries exits total_cash size'
                             (replicate (snd (shape close)) ''basket'') of
                        Inl e \<Rightarrow> (if is_exception e then Inr None else Inl e,
                                  [EvFallback g env, EvSimulate close entries exits])
                      | Inr pf \<Rightarrow> (Inr (Some pf),
                                   [EvFallback g env, EvSimulate close entries exits]))
                 | _ \<Rightarrow> (Inr None, [EvFallback g env]))
           else (Inr None, [EvFallback g env])))"


definition exhausted_message :: "int \<Rightarrow> string \<Rightarrow> string" where
  "exhausted_message max_retries last_error =
     ''Failed to generate valid code after '' @ str_int max_retries @
     '' attempts.\<newline>Last error:\<newline>'' @ last_error"

text \<open>What the last attempt ends in once its \<open>try\<close> block has raised an \<open>Exception\<close>
  classified as \<open>msg\<close>, by the result of the fallback path.\<close>

fun after_fallback :: "int \<Rightarrow> string \<Rightarrow> exn + 'pf option \<Rightarrow> 'pf outcome" where
  "after_fallback max_retries msg (Inr (Some pf)) = Return (Some pf)"
| "after_fallback max_retries msg (Inr None) =
     Raise (Exc ''RuntimeError'' (exhausted_message max_retries msg))"
| "after_fallback max_retries msg (Inl e) = Raise e"

text \<open>The variables the loop carries from one iteration to the next: the code and the
  error of the attempt before, the two dictionaries handed to \<open>exec\<close>
  (\<open>preloaded_globals\<close> and \<open>env\<close> in the source), and the calls made so far.\<close>

record lstate =
  code_str :: "string option"
  last_error :: string
  globs :: globals
  env :: namespace
  trace :: "event list"

text \<open>One iteration of \<open>for attempt in range(1, max_retries + 1)\<close>: \<open>Inl\<close> when the
  function returns or raises in it, \<open>Inr\<close> the variables for the next iteration.\<close>

definition attempt_step ::
  "('f, 'pf) world \<Rightarrow> string \<Rightarrow> 'f \<Rightarrow> 'f \<Rightarrow> int \<Rightarrow> int \<Rightarrow> lstate
     \<Rightarrow> ('pf outcome \<times> event list) + lstate" where
  "attempt_step w base total_cash size' max_retries attempt st =
     (let prompt = build_prompt base (code_str st) (last_error st) attempt in
      case chat_completion w attempt prompt of
        Inl e \<Rightarrow> Inl (Raise e, trace st @ [EvGenerate prompt])
      | Inr content \<Rightarrow>
          (let code = clean_generated_code content in
           case try_block w attempt code (globs st) (env st) total_cash size' of
             (g', env', Inr pf, evs) \<Rightarrow>
               Inl (Return (Some pf), trace st @ [EvGenerate prompt] @ evs)
           | (g', env', Inl e, evs) \<Rightarrow>
               (if \<not> is_exception e
                then Inl (Raise e, trace st @ [EvGenerate prompt] @ evs)
                else (let last = snd (classify (str_exn e)) in
                      if attempt = max_retries
                      then (case run_fallback w g' env' total_cash size' of
                              (res, fevs) \<Rightarrow>
                                Inl (after_fallback max_retries last res,
                                     trace st @ [EvGenerate prompt] @ evs @ fevs))
                      else Inr \<lparr>code_str = Some code, last_error = last, globs = g',
                                env = env', trace = trace st @ [EvGenerate prompt] @ evs\<rparr>))))"

text \<open>The calls made up to the end of an iteration.\<close>

fun step_trace :: "('pf outcome \<times> event list) + lstate \<Rightarrow> event list" where
  "step_trace (Inl (r, tr)) = tr"
| "step_trace (Inr st) = trace st"

function retry_loop ::
  "('f, 'pf) world \<Rightarrow> string \<Rightarrow> 'f \<Rightarrow> 'f \<Rightarrow> int \<Rightarrow> int \<Rightarrow> lstate
     \<Rightarrow> 'pf outcome \<times> event list" where
  "retry_loop w base total_cash size' max_retries attempt st =
     (if max_retries < attempt then (Return None, trace st)
      else (case attempt_step w base total_cash size' max_retries attempt st of
              Inl result \<Rightarrow> result
            | Inr st' \<Rightarrow> retry_loop w base total_cash size' max_retries (attempt + 1) st'))"
  by pat_completeness auto
termination
  by (relation "measure (\<lambda>(w, base, total_cash, size', max_retries, attempt, st).
        nat (max_retries + 1 - attempt))") auto

declare retry_loop.simps [simp del]

definition auto_backtest ::
  "('f, 'pf) world \<Rightarrow> string \<Rightarrow> string list \<Rightarrow> 'f \<Rightarrow> 'f \<Rightarrow> string \<Rightarrow> string \<Rightarrow> int
     \<Rightarrow> 'pf outcome \<times> event list" where
  "auto_backtest w user_prompt tickers total_cash size' period interval max_retries =
     (case api_key w of
        None \<Rightarrow>
          (Raise (Exc ''ValueError''
             ''You must provide an OpenAI API key via OPENAI_API_KEY env var.''), [])
      | Some key \<Rightarrow>
          (let base = base_prompt (instructions w) user_prompt;
               csv_path = ''ind_nifty500list.csv''
           in case read_csv w csv_path of
                Inl e \<Rightarrow> (Raise e, [EvReadCsv csv_path])
              | Inr col \<Rightarrow>
                  (let raw_syms = unique (map (str_upper w) (dropna col));
                       tickers = map ns_suffix raw_syms
                   in case download w tickers period interval of
                        Inl e \<Rightarrow> (Raise e, [EvReadCsv csv_path, EvDownload tickers period interval])
                      | Inr raw \<Rightarrow>
                          retry_loop w base total_cash size' max_retries 1
                            \<lparr>code_str = None, last_error = [],
                             globs = preloaded_globals,
                             env = [(''raw'', raw)],
                             trace = [EvReadCsv csv_path,
                                      EvDownload tickers period interval]\<rparr>)))"

section \<open>Example data\<close>

text \<open>Fault messages that match several rules of the classifier at once.\<close>

definition ex_msg1 :: string where
  "ex_msg1 = ''KeyError: None of shape doesn't match SyntaxError No data found''"

definition ex_msg2 :: string where
  "ex_msg2 = ''KeyError: None of [Index] are in the columns SyntaxError No data found''"

definition ex_msg3 :: string where
  "ex_msg3 = ''SyntaxError: No data found for YFPricesMissingError''"

definition ex_msg4 :: string where
  "ex_msg4 = ''SyntaxError: invalid syntax, KeyError''"

definition ex_msg5 :: string where
  "ex_msg5 = ''division by zero''"

text \<open>A price table of two rows and two columns, a signal table that lacks a column,
  one of the right shape, one of the right shape on other labels, and one with a
  duplicate column label.\<close>

definition ex_close :: frame where
  "ex_close = \<lparr>index = [IntL 0, IntL 1], columns = [StrL ''A'', StrL ''B''],
               rows = [[NumV 101, NumV 202], [NumV 103, NumV 204]]\<rparr>"

definition ex_narrow :: frame where
  "ex_narrow = \<lparr>index = [IntL 0, IntL 1], columns = [StrL ''A''],
                rows = [[BoolV True], [BoolV False]]\<rparr>"

definition ex_narrow_fixed :: frame where
  "ex_narrow_fixed = \<lparr>index = [IntL 0, IntL 1], columns = [StrL ''A'', StrL ''B''],
                      rows = [[BoolV True, BoolV False], [BoolV False, BoolV False]]\<rparr>"

definition ex_same :: frame where
  "ex_same = \<lparr>index = [IntL 0, IntL 1], columns = [StrL ''A'', StrL ''B''],
              rows = [[BoolV False, BoolV False], [BoolV False, BoolV True]]\<rparr>"

definition ex_other_labels :: frame where
  "ex_other_labels = \<lparr>index = [IntL 7, IntL 8], columns = [StrL ''X'', StrL ''Y''],
                      rows = [[BoolV True, BoolV False], [BoolV False, BoolV True]]\<rparr>"

definition ex_duplicate :: frame where
  "ex_duplicate = \<lparr>index = [IntL 0, IntL 1], columns = [StrL ''A'', StrL ''A'', StrL ''B''],
                   rows = [[BoolV True, BoolV False, BoolV False],
                           [BoolV False, BoolV False, BoolV True]]\<rparr>"

definition ex_env :: "frame \<Rightarrow> frame \<Rightarrow> namespace" where
  "ex_env entries exits =
     [(''close'', DataFrame ex_close), (''entries'', DataFrame entries),
      (''exits'', DataFrame exits)]"

text \<open>A downloaded table of eleven days for the tickers \<open>A.NS\<close> and \<open>B.NS\<close>, each with
  the fields \<open>Open\<close> and \<open>Close\<close>.\<close>

definition ex_raw :: frame where
  "ex_raw = \<lparr>index = map IntL [0, 1, 2, 3, 4, 5, 6, 7, 8, 9, 10],
             columns = [TupL ''A.NS'' ''Open'', TupL ''A.NS'' ''Close'',
                        TupL ''B.NS'' ''Open'', TupL ''B.NS'' ''Close''],
             rows = replicate 11 [NumV 10, NumV 11, NumV 20, NumV 21]\<rparr>"

definition ex_raw_close :: frame where
  "ex_raw_close = \<lparr>index = map IntL [0, 1, 2, 3, 4, 5, 6, 7, 8, 9, 10],
                   columns = [StrL ''A.NS'', StrL ''B.NS''],
                   rows = replicate 11 [NumV 11, NumV 21]\<rparr>"

text \<open>
  A world in which the model always answers with a fenced call of an undefined
  function, so that every attempt fails in \<open>exec\<close>, and the simulation returns portfolio
  7; the same world with a simulation that raises; one in which the generated code
  rebinds the global \<open>pd\<close> before it fails; one in which it adds a global name before
  it fails; one in which it raises \<open>SystemExit\<close>; and one in which the code of attempt 1
  binds the three tables and then calls the undefined function, and the code of every
  later attempt is \<open>pass\<close>, which binds nothing.
\<close>

definition ascii_upper :: "string \<Rightarrow> string" where
  "ascii_upper s =
     map (\<lambda>c. if 97 \<le> (of_char c :: nat) \<and> (of_char c :: nat) \<le> 122
               then char_of ((of_char c :: nat) - 32) else c) s"

definition ex_world :: "(int, nat) world" where
  "ex_world =
     \<lparr>api_key = Some ''sk-test'',
      read_csv = (\<lambda>path. Inr [Some ''a'', None, Some ''A'', Some ''b.ns'']),
      str_upper = ascii_upper,
      download = (\<lambda>tickers period interval. Inr (DataFrame ex_raw)),
      chat_completion = (\<lambda>attempt prompt. Inr ''```python\<newline>boom()\<newline>```''),
      exec_code = (\<lambda>attempt code g ns.
                     (g, ns, Some (Exc ''NameError'' ''name 'boom' is not defined''))),
      from_signals = (\<lambda>close entries exits cash sz group. Inr 7),
      instructions = ''RULES\<newline>''\<rparr>"



definition ex_world_helper :: "(int, nat) world" where
  "ex_world_helper =
     ex_world\<lparr>chat_completion :=
                (\<lambda>attempt prompt. Inr ''global helper\<newline>helper = 1\<newline>boom()''),
              exec_code :=
                (\<lambda>attempt code g ns.
                   (AList.update ''helper'' (Object ''int'') g, ns,
                    Some (Exc ''NameError'' ''name 'boom' is not defined'')))\<rparr>"








section \<open>Properties of the sanitizer\<close>

lemma split_nl_nonempty: "split_nl s \<noteq> []"
  by (induction s) (auto split: list.splits)

lemma join_split_nl: "join_nl (split_nl s) = s"
proof (induction s)
  case Nil show ?case by simp
next
  case (Cons c cs)
  obtain l ls where sp: "split_nl cs = l # ls"
    using split_nl_nonempty [of cs] by (cases "split_nl cs") auto
  show ?case
  proof (cases "c = CHR 0x0A")
    case True
    with Cons sp show ?thesis by simp
  next
    case False
    with Cons sp show ?thesis by (cases ls) auto
  qed
qed

lemma cleaned_lines_id: "\<forall>l\<in>set ls. \<not> is_explanation l \<Longrightarrow> cleaned_lines ls = ls"
  by (induction ls) auto

lemma prefix_hd_split_nl:
  "prefix l s \<Longrightarrow> CHR 0x0A \<notin> set l \<Longrightarrow> prefix l (hd (split_nl s))"
proof (induction s arbitrary: l)
  case Nil then show ?case by simp
next
  case (Cons c cs)
  show ?case
  proof (cases l)
    case Nil then show ?thesis by simp
  next
    case (Cons a l')
    with Cons.prems have a: "a = c" "prefix l' cs" "c \<noteq> CHR 0x0A" "CHR 0x0A \<notin> set l'"
      by auto
    from Cons.IH [OF a(2) a(4)] have "prefix l' (hd (split_nl cs))" .
    with a Cons show ?thesis
      using split_nl_nonempty [of cs] by (auto split: list.splits)
  qed
qed

lemma sublist_split_nl:
  "sublist l s \<Longrightarrow> CHR 0x0A \<notin> set l \<Longrightarrow> \<exists>l'\<in>set (split_nl s). sublist l l'"
proof (induction s)
  case Nil then show ?case by simp
next
  case (Cons c cs)
  from Cons.prems(1) consider "prefix l (c # cs)" | "sublist l cs"
    by (auto simp: sublist_Cons_right)
  then show ?case
  proof cases
    case 1
    from prefix_hd_split_nl [OF 1 Cons.prems(2)]
    have "sublist l (hd (split_nl (c # cs)))" by (rule prefix_imp_sublist)
    moreover have "hd (split_nl (c # cs)) \<in> set (split_nl (c # cs))"
      using split_nl_nonempty [of "c # cs"] by (intro hd_in_set)
    ultimately show ?thesis by blast
  next
    case 2
    from Cons.IH [OF 2 Cons.prems(2)] obtain l' where l': "l' \<in> set (split_nl cs)" "sublist l l'"
      by blast
    obtain l0 ls where sp: "split_nl cs = l0 # ls"
      using split_nl_nonempty [of cs] by (cases "split_nl cs") auto
    show ?thesis
    proof (cases "c = CHR 0x0A")
      case True with l' show ?thesis by auto
    next
      case False
      show ?thesis
      proof (cases "l' = l0")
        case True
        with l' have "sublist l (c # l0)" by (simp add: sublist_Cons_right)
        with False sp show ?thesis by auto
      next
        case False
        with l' sp have "l' \<in> set ls" by auto
        with \<open>c \<noteq> CHR 0x0A\<close> sp l' show ?thesis by auto
      qed
    qed
  qed
qed


lemma sublist_join_nl: "l \<in> set ls \<Longrightarrow> sublist l (join_nl ls)"
proof (induction ls rule: join_nl.induct)
  case 1 then show ?case by simp
next
  case (2 l0) then show ?case by simp
next
  case (3 l0 v va)
  show ?case
  proof (cases "l = l0")
    case True then show ?thesis by simp
  next
    case False
    with 3 have a: "sublist l (join_nl (v # va))" by auto
    have "sublist (join_nl (v # va)) ((l0 @ [CHR 0x0A]) @ join_nl (v # va))"
      by (rule sublist_append_leftI)
    with a have "sublist l ((l0 @ [CHR 0x0A]) @ join_nl (v # va))"
      by (rule sublist_order.order_trans)
    then show ?thesis by simp
  qed
qed

lemma split_nl_line: "l \<in> set (split_nl s) \<Longrightarrow> sublist l s"
  using sublist_join_nl [of l "split_nl s"] by (simp add: join_split_nl)

lemma lower_char_nl: "lower_char c = CHR 0x0A \<longleftrightarrow> c = CHR 0x0A"
proof
  assume "c = CHR 0x0A"
  then show "lower_char c = CHR 0x0A" by (simp add: lower_char_def)
next
  assume a: "lower_char c = CHR 0x0A"
  show "c = CHR 0x0A"
  proof (rule ccontr)
    assume n: "c \<noteq> CHR 0x0A"
    define k where "k = (of_char c :: nat)"
    from a n have r: "(65 \<le> k \<and> k \<le> 90) \<or> (192 \<le> k \<and> k \<le> 222 \<and> k \<noteq> 215)"
      and e: "char_of (k + 32) = CHR 0x0A"
      by (auto simp: lower_char_def Let_def k_def split: if_splits)
    from e have "(of_char (char_of (k + 32) :: char) :: nat) = of_char (CHR 0x0A)" by simp
    then have "(k + 32) mod 256 = 10" by simp
    with r show False by auto
  qed
qed

lemma split_nl_lower: "split_nl (lower s) = map lower (split_nl s)"
  unfolding lower_def
  by (induction s) (auto simp: lower_char_nl split: list.splits)

lemma sublist_lstrip: "sublist (lstrip s) s"
  unfolding lstrip_def by (metis sublist_append_leftI takeWhile_dropWhile_id)

lemma sublist_rstrip: "sublist (rstrip s) s"
proof -
  have "rev (takeWhile isspace (rev s) @ dropWhile isspace (rev s)) = s"
    by (simp only: takeWhile_dropWhile_id rev_rev_ident)
  then have "s = rstrip s @ rev (takeWhile isspace (rev s))"
    by (simp only: rev_append rstrip_def)
  then show ?thesis by (metis sublist_append_rightI)
qed

lemma sublist_strip: "sublist (strip s) s"
  unfolding strip_def
  using sublist_rstrip [of "lstrip s"] sublist_lstrip [of s]
  by (rule sublist_order.order_trans)

lemma rstrip_Cons: "\<not> isspace x \<Longrightarrow> rstrip (x # t) = x # rstrip t"
  by (simp add: rstrip_def dropWhile_append dropWhile_eq_Nil_conv)

lemma rstrip_idem: "rstrip (rstrip t) = rstrip t"
  by (simp add: rstrip_def)

lemma strip_strip: "strip (strip s) = strip s"
proof (cases "lstrip s")
  case Nil
  then have "strip s = []" by (simp add: strip_def rstrip_def)
  moreover have "strip [] = []" by (simp add: strip_def rstrip_def lstrip_def)
  ultimately show ?thesis by simp
next
  case (Cons x t)
  then have "\<not> isspace x"
    unfolding lstrip_def by (metis hd_dropWhile list.sel(1) list.distinct(1))
  with Cons show ?thesis
    by (simp add: strip_def rstrip_Cons lstrip_def rstrip_idem)
qed

lemma strip_fences_id: "\<not> fenced s \<Longrightarrow> strip_fences s = s"
  by (auto simp: fenced_def strip_fences_def startswith_def endswith_def Let_def prefix_def)

lemma clean_plain: "already_clean s \<Longrightarrow> clean_generated_code s = strip s"
  by (simp add: already_clean_def clean_generated_code_def strip_fences_id cleaned_lines_id
      join_split_nl list_all_iff)

lemma phrase_no_nl: "p \<in> set explanation_phrases \<Longrightarrow> CHR 0x0A \<notin> set p"
  by (auto simp: explanation_phrases_def)

lemma explanation_sublist:
  assumes t: "sublist t s" and l: "l \<in> set (split_nl t)" and e: "is_explanation l"
  shows "\<exists>l'\<in>set (split_nl s). is_explanation l'"
proof -
  from e obtain p where p: "p \<in> set explanation_phrases" "sublist p (lower l)"
    by (auto simp: is_explanation_def list_ex_iff py_in_def)
  from l have "sublist l t" by (rule split_nl_line)
  with t have "sublist l s" by (metis sublist_order.order_trans)
  then have "sublist (lower l) (lower s)" unfolding lower_def by (rule map_mono_sublist)
  with p(2) have "sublist p (lower s)" by (metis sublist_order.order_trans)
  from sublist_split_nl [OF this phrase_no_nl [OF p(1)]]
  obtain l' where "l' \<in> set (split_nl s)" "sublist p (lower l')"
    by (auto simp: split_nl_lower)
  with p(1) show ?thesis
    by (auto simp: is_explanation_def list_ex_iff py_in_def)
qed

lemma strip_no_explanation:
  assumes "already_clean s"
  shows "list_all (\<lambda>line. \<not> is_explanation line) (split_nl (strip s))"
  using explanation_sublist [OF sublist_strip, of _ s] assms
  unfolding already_clean_def list_all_iff by blast

text \<open>
  Claim C8 (the scenario as the code runs it). The closing fence of the scenario's
  input is followed by a line of prose, so the text does not end with the fence and
  \<open>endswith\<close> does not fire; the loop then stops at the prose line and keeps the fence line.
  The function returns \<open>entries = x\<close>, a newline and the three backquotes.
\<close>

theorem clean_fenced_then_prose:
  "clean_generated_code ''```python\<newline>entries = x\<newline>```\<newline>This code buys low.''
     = ''entries = x\<newline>```''"
  by code_simp

text \<open>
  Claim C9, the first half as stated and the second half amended. On input with no
  fence marker at either end and no explanation phrase on any line, the sanitizer
  returns the input with leading and trailing whitespace stripped. Sanitizing that
  result again changes nothing, provided the stripped text does not itself begin or end
  with a fence marker (whitespace around a fence hides it from the first pass only).
\<close>

theorem clean_already_clean:
  assumes "already_clean s"
  shows "clean_generated_code s = strip s \<and>
         (\<not> fenced (strip s) \<longrightarrow>
          clean_generated_code (clean_generated_code s) = clean_generated_code s)"
proof -
  have c: "clean_generated_code s = strip s" using assms by (rule clean_plain)
  have n: "list_all (\<lambda>line. \<not> is_explanation line) (split_nl (strip s))"
    using assms by (rule strip_no_explanation)
  show ?thesis
  proof (intro conjI impI)
    show "clean_generated_code s = strip s" by (rule c)
  next
    assume "\<not> fenced (strip s)"
    with n have "already_clean (strip s)" by (simp add: already_clean_def)
    then have "clean_generated_code (strip s) = strip (strip s)" by (rule clean_plain)
    with c show "clean_generated_code (clean_generated_code s) = clean_generated_code s"
      by (simp add: strip_strip)
  qed
qed

theorem clean_already_clean_witness:
  "already_clean ''  x = 1\<newline>y = 2 \<newline>'' \<and>
   \<not> fenced (strip ''  x = 1\<newline>y = 2 \<newline>'') \<and>
   clean_generated_code ''  x = 1\<newline>y = 2 \<newline>'' = ''x = 1\<newline>y = 2'' \<and>
   clean_generated_code (clean_generated_code ''  x = 1\<newline>y = 2 \<newline>'')
     = clean_generated_code ''  x = 1\<newline>y = 2 \<newline>''"
proof -
  have h: "already_clean ''  x = 1\<newline>y = 2 \<newline>''" by code_simp
  have f: "\<not> fenced (strip ''  x = 1\<newline>y = 2 \<newline>'')" by code_simp
  have s: "strip ''  x = 1\<newline>y = 2 \<newline>'' = ''x = 1\<newline>y = 2''" by code_simp
  from clean_already_clean [OF h] f have
    "clean_generated_code ''  x = 1\<newline>y = 2 \<newline>'' = strip ''  x = 1\<newline>y = 2 \<newline>''"
    "clean_generated_code (clean_generated_code ''  x = 1\<newline>y = 2 \<newline>'')
       = clean_generated_code ''  x = 1\<newline>y = 2 \<newline>''"
    by blast+
  with h f s show ?thesis by (simp only: simp_thms)
qed

text \<open>
  Claim C9 as stated fails: a fence marker behind a leading space is not at the start
  of the text, so the input counts as clean and the first pass only strips the space;
  the second pass then finds the fence at the start and removes it.
\<close>

theorem clean_not_idempotent:
  "already_clean '' ```x'' \<and>
   clean_generated_code '' ```x'' = ''```x'' \<and>
   clean_generated_code (clean_generated_code '' ```x'') = ''x''"
  by code_simp

section \<open>Properties of the classifier\<close>

lemma py_in_append_right: "py_in p h \<Longrightarrow> py_in p (a @ h)"
  unfolding py_in_def sublist_def by (metis append.assoc)

lemma reindex_in_shape_hint:
  "py_in ''entries = entries.reindex(index=close.index, columns=close.columns, fill_value=False)''
     shape_hint"
  by code_simp

lemma classify_rules: "classify e = first_match classifier_rules e"
  by (simp add: classify_def first_match_def classifier_rules_def)

text \<open>
  Claim C4. The rules are tried in the order of the source and the first that matches
  decides, for every message: the classifier is the first-match evaluation of the rule
  list shape, indexing, data, syntax. A message that contains both \<open>shape\<close> and
  \<open>doesn't match\<close> is a ShapeMismatch, whatever else it contains, and its text carries
  the message and the hint to reindex onto the index and columns of \<open>close\<close> with fill
  value \<open>False\<close>. A later rule decides only when no earlier rule matches. A message that
  matches no rule is passed through behind the prefix \<open>Error: \<close>.
\<close>

theorem classify_first_match:
  "classify e = first_match classifier_rules e \<and>
   (py_in ''shape'' e \<and> py_in ''doesn't match'' e \<longrightarrow>
      classify e = (ShapeMismatch, ''Shape mismatch error: '' @ e @ shape_hint) \<and>
      py_in ''entries = entries.reindex(index=close.index, columns=close.columns, fill_value=False)''
        (snd (classify e))) \<and>
   (\<not> (py_in ''shape'' e \<and> py_in ''doesn't match'' e) \<and>
    py_in ''KeyError'' e \<and> py_in ''None of'' e \<longrightarrow>
      classify e = (IndexingError, ''Indexing error: '' @ e @ indexing_hint)) \<and>
   (\<not> (py_in ''shape'' e \<and> py_in ''doesn't match'' e) \<and>
    \<not> (py_in ''KeyError'' e \<and> py_in ''None of'' e) \<and>
    (py_in ''YFPricesMissingError'' e \<or> py_in ''No data found'' e) \<longrightarrow>
      classify e = (DataUnavailable, ''Invalid ticker symbol: '' @ e @ ticker_hint)) \<and>
   (\<not> (py_in ''shape'' e \<and> py_in ''doesn't match'' e) \<and>
    \<not> (py_in ''KeyError'' e \<and> py_in ''None of'' e) \<and>
    \<not> (py_in ''YFPricesMissingError'' e \<or> py_in ''No data found'' e) \<and>
    py_in ''SyntaxError'' e \<longrightarrow>
      classify e = (SyntaxError, ''Python syntax error: '' @ e @ syntax_hint)) \<and>
   (\<not> (py_in ''shape'' e \<and> py_in ''doesn't match'' e) \<and>
    \<not> (py_in ''KeyError'' e \<and> py_in ''None of'' e) \<and>
    \<not> (py_in ''YFPricesMissingError'' e \<or> py_in ''No data found'' e) \<and>
    \<not> py_in ''SyntaxError'' e \<longrightarrow>
      classify e = (Other, ''Error: '' @ e))"
proof (intro conjI impI)
  show "classify e = first_match classifier_rules e" by (rule classify_rules)
next
  assume a: "py_in ''shape'' e \<and> py_in ''doesn't match'' e"
  then show c: "classify e = (ShapeMismatch, ''Shape mismatch error: '' @ e @ shape_hint)"
    by (simp add: classify_def)
  from py_in_append_right [OF reindex_in_shape_hint, of "''Shape mismatch error: '' @ e"]
  show "py_in ''entries = entries.reindex(index=close.index, columns=close.columns, fill_value=False)''
        (snd (classify e))"
    by (simp add: c)
next
  assume "\<not> (py_in ''shape'' e \<and> py_in ''doesn't match'' e) \<and>
    py_in ''KeyError'' e \<and> py_in ''None of'' e"
  then show "classify e = (IndexingError, ''Indexing error: '' @ e @ indexing_hint)"
    by (simp add: classify_def)
next
  assume "\<not> (py_in ''shape'' e \<and> py_in ''doesn't match'' e) \<and>
    \<not> (py_in ''KeyError'' e \<and> py_in ''None of'' e) \<and>
    (py_in ''YFPricesMissingError'' e \<or> py_in ''No data found'' e)"
  then show "classify e = (DataUnavailable, ''Invalid ticker symbol: '' @ e @ ticker_hint)"
    by (simp add: classify_def)
next
  assume "\<not> (py_in ''shape'' e \<and> py_in ''doesn't match'' e) \<and>
    \<not> (py_in ''KeyError'' e \<and> py_in ''None of'' e) \<and>
    \<not> (py_in ''YFPricesMissingError'' e \<or> py_in ''No data found'' e) \<and>
    py_in ''SyntaxError'' e"
  then show "classify e = (SyntaxError, ''Python syntax error: '' @ e @ syntax_hint)"
    by (simp add: classify_def)
next
  assume "\<not> (py_in ''shape'' e \<and> py_in ''doesn't match'' e) \<and>
    \<not> (py_in ''KeyError'' e \<and> py_in ''None of'' e) \<and>
    \<not> (py_in ''YFPricesMissingError'' e \<or> py_in ''No data found'' e) \<and>
    \<not> py_in ''SyntaxError'' e"
  then show "classify e = (Other, ''Error: '' @ e)"
    by (simp add: classify_def)
qed

theorem classify_first_match_witness:
  "(py_in ''shape'' ex_msg1 \<and> py_in ''doesn't match'' ex_msg1 \<and>
    py_in ''KeyError'' ex_msg1 \<and> py_in ''None of'' ex_msg1 \<and>
    py_in ''No data found'' ex_msg1 \<and> py_in ''SyntaxError'' ex_msg1 \<and>
    classify ex_msg1 = (ShapeMismatch, ''Shape mismatch error: '' @ ex_msg1 @ shape_hint)) \<and>
   (\<not> (py_in ''shape'' ex_msg2 \<and> py_in ''doesn't match'' ex_msg2) \<and>
    py_in ''KeyError'' ex_msg2 \<and> py_in ''None of'' ex_msg2 \<and>
    py_in ''No data found'' ex_msg2 \<and> py_in ''SyntaxError'' ex_msg2 \<and>
    classify ex_msg2 = (IndexingError, ''Indexing error: '' @ ex_msg2 @ indexing_hint)) \<and>
   (\<not> (py_in ''shape'' ex_msg3 \<and> py_in ''doesn't match'' ex_msg3) \<and>
    \<not> (py_in ''KeyError'' ex_msg3 \<and> py_in ''None of'' ex_msg3) \<and>
    (py_in ''YFPricesMissingError'' ex_msg3 \<or> py_in ''No data found'' ex_msg3) \<and>
    py_in ''SyntaxError'' ex_msg3 \<and>
    classify ex_msg3 = (DataUnavailable, ''Invalid ticker symbol: '' @ ex_msg3 @ ticker_hint)) \<and>
   (\<not> (py_in ''shape'' ex_msg4 \<and> py_in ''doesn't match'' ex_msg4) \<and>
    \<not> (py_in ''KeyError'' ex_msg4 \<and> py_in ''None of'' ex_msg4) \<and>
    \<not> (py_in ''YFPricesMissingError'' ex_msg4 \<or> py_in ''No data found'' ex_msg4) \<and>
    py_in ''SyntaxError'' ex_msg4 \<and>
    classify ex_msg4 = (SyntaxError, ''Python syntax error: '' @ ex_msg4 @ syntax_hint)) \<and>
   (\<not> (py_in ''shape'' ex_msg5 \<and> py_in ''doesn't match'' ex_msg5) \<and>
    \<not> (py_in ''KeyError'' ex_msg5 \<and> py_in ''None of'' ex_msg5) \<and>
    \<not> (py_in ''YFPricesMissingError'' ex_msg5 \<or> py_in ''No data found'' ex_msg5) \<and>
    \<not> py_in ''SyntaxError'' ex_msg5 \<and>
    classify ex_msg5 = (Other, ''Error: '' @ ex_msg5))"
proof -
  have p1: "py_in ''shape'' ex_msg1 \<and> py_in ''doesn't match'' ex_msg1"
    and q1: "py_in ''KeyError'' ex_msg1 \<and> py_in ''None of'' ex_msg1 \<and>
      py_in ''No data found'' ex_msg1 \<and> py_in ''SyntaxError'' ex_msg1"
    by code_simp+
  have p2: "\<not> (py_in ''shape'' ex_msg2 \<and> py_in ''doesn't match'' ex_msg2) \<and>
      py_in ''KeyError'' ex_msg2 \<and> py_in ''None of'' ex_msg2"
    and q2: "py_in ''No data found'' ex_msg2 \<and> py_in ''SyntaxError'' ex_msg2"
    by code_simp+
  have p3: "\<not> (py_in ''shape'' ex_msg3 \<and> py_in ''doesn't match'' ex_msg3) \<and>
      \<not> (py_in ''KeyError'' ex_msg3 \<and> py_in ''None of'' ex_msg3) \<and>
      (py_in ''YFPricesMissingError'' ex_msg3 \<or> py_in ''No data found'' ex_msg3)"
    and q3: "py_in ''SyntaxError'' ex_msg3"
    by code_simp+
  have p4: "\<not> (py_in ''shape'' ex_msg4 \<and> py_in ''doesn't match'' ex_msg4) \<and>
      \<not> (py_in ''KeyError'' ex_msg4 \<and> py_in ''None of'' ex_msg4) \<and>
      \<not> (py_in ''YFPricesMissingError'' ex_msg4 \<or> py_in ''No data found'' ex_msg4) \<and>
      py_in ''SyntaxError'' ex_msg4"
    by code_simp
  have p5: "\<not> (py_in ''shape'' ex_msg5 \<and> py_in ''doesn't match'' ex_msg5) \<and>
      \<not> (py_in ''KeyError'' ex_msg5 \<and> py_in ''None of'' ex_msg5) \<and>
      \<not> (py_in ''YFPricesMissingError'' ex_msg5 \<or> py_in ''No data found'' ex_msg5) \<and>
      \<not> py_in ''SyntaxError'' ex_msg5"
    by code_simp
  from classify_first_match [of ex_msg1] p1
  have c1: "classify ex_msg1 = (ShapeMismatch, ''Shape mismatch error: '' @ ex_msg1 @ shape_hint)"
    by blast
  from classify_first_match [of ex_msg2] p2
  have c2: "classify ex_msg2 = (IndexingError, ''Indexing error: '' @ ex_msg2 @ indexing_hint)"
    by blast
  from classify_first_match [of ex_msg3] p3
  have c3: "classify ex_msg3 = (DataUnavailable, ''Invalid ticker symbol: '' @ ex_msg3 @ ticker_hint)"
    by blast
  from classify_first_match [of ex_msg4] p4
  have c4: "classify ex_msg4 = (SyntaxError, ''Python syntax error: '' @ ex_msg4 @ syntax_hint)"
    by blast
  from classify_first_match [of ex_msg5] p5
  have c5: "classify ex_msg5 = (Other, ''Error: '' @ ex_msg5)"
    by blast
  from p1 q1 c1 p2 q2 c2 p3 q3 c3 p4 c4 p5 c5 show ?thesis by blast
qed

section \<open>Properties of tables\<close>

lemma position_Some: "x \<in> set xs \<Longrightarrow> \<exists>r. position x xs = Some r \<and> r < length xs \<and> xs ! r = x"
  by (induction xs) auto

lemma position_None: "x \<notin> set xs \<Longrightarrow> position x xs = None"
  by (induction xs) auto

lemma at_present:
  assumes "wf_frame df" "i \<in> set (index df)" "k \<in> set (columns df)"
  shows "\<exists>v. at df i k = Some v"
proof -
  from position_Some [OF assms(2)] obtain r where r: "position i (index df) = Some r"
    "r < length (index df)" by blast
  from position_Some [OF assms(3)] obtain j where j: "position k (columns df) = Some j"
    "j < length (columns df)" by blast
  from assms(1) r(2) have "r < length (rows df)" "length (rows df ! r) = length (columns df)"
    by (auto simp: wf_frame_def list_all_length)
  with r j show ?thesis by (simp add: at_def)
qed

lemma at_absent: "i \<notin> set (index df) \<or> k \<notin> set (columns df) \<Longrightarrow> at df i k = None"
  by (auto simp: at_def position_None split: option.splits)

lemma position_SomeD: "position x xs = Some r \<Longrightarrow> r < length xs \<and> xs ! r = x"
  by (induction xs arbitrary: r) (auto split: if_splits)

lemma take_axis_length:
  "length xs = length src \<Longrightarrow> length (take_axis xs src tgt fill) = length tgt"
  by (auto simp: take_axis_def)

lemma take_axis_nth:
  assumes "length xs = length src" "position l tgt = Some r"
  shows "take_axis xs src tgt fill ! r = (case position l src of Some p \<Rightarrow> xs ! p | None \<Rightarrow> fill)"
proof (cases "src = tgt")
  case True
  with assms(2) show ?thesis by (simp add: take_axis_def)
next
  case False
  from position_SomeD [OF assms(2)] have r: "r < length tgt" "tgt ! r = l" by auto
  show ?thesis
  proof (cases "position l src")
    case None
    with False r show ?thesis by (simp add: take_axis_def)
  next
    case (Some p)
    from position_SomeD [OF Some] assms(1) have "p < length xs" by simp
    with False r Some show ?thesis by (simp add: take_axis_def)
  qed
qed

lemma take_axis_all:
  assumes "list_all P xs" "P fill"
  shows "list_all P (take_axis xs src tgt fill)"
  using assms
  by (auto simp: take_axis_def list_all_iff split: option.splits)

lemma at_reindexed:
  assumes "wf_frame t" "i \<in> set idx" "k \<in> set cols"
  shows "at \<lparr>index = idx, columns = cols,
             rows = take_axis (map (\<lambda>row. take_axis row (columns t) cols fill) (rows t))
                      (index t) idx (replicate (length cols) fill)\<rparr> i k
         = Some (case at t i k of Some v \<Rightarrow> v | None \<Rightarrow> fill)"
proof -
  let ?f = "\<lambda>row. take_axis row (columns t) cols fill"
  let ?rows1 = "map ?f (rows t)"
  let ?rows' = "take_axis ?rows1 (index t) idx (replicate (length cols) fill)"
  from assms(1) have len: "length (rows t) = length (index t)"
    and rowlen: "\<And>p. p < length (rows t) \<Longrightarrow> length (rows t ! p) = length (columns t)"
    by (auto simp: wf_frame_def list_all_length)
  from position_Some [OF assms(2)] obtain r where r: "position i idx = Some r"
    "r < length idx" by blast
  from position_Some [OF assms(3)] obtain j where j: "position k cols = Some j"
    "j < length cols" by blast
  have l1: "length ?rows1 = length (index t)" using len by simp
  have lr: "length ?rows' = length idx" using l1 by (rule take_axis_length)
  have row: "?rows' ! r = (case position i (index t) of
      Some p \<Rightarrow> ?rows1 ! p | None \<Rightarrow> replicate (length cols) fill)"
    using l1 r(1) by (rule take_axis_nth)
  have cell: "length (?rows' ! r) = length cols \<and>
      ?rows' ! r ! j = (case at t i k of Some v \<Rightarrow> v | None \<Rightarrow> fill)"
  proof (cases "position i (index t)")
    case None
    with row j(2) show ?thesis by (simp add: at_def)
  next
    case (Some p)
    from position_SomeD [OF Some] len have p: "p < length (rows t)" by simp
    with row Some have rp: "?rows' ! r = ?f (rows t ! p)" by simp
    from rowlen [OF p] have "length (?f (rows t ! p)) = length cols"
      by (rule take_axis_length)
    moreover from rowlen [OF p] j(1)
    have "?f (rows t ! p) ! j = (case position k (columns t) of
        Some q \<Rightarrow> rows t ! p ! q | None \<Rightarrow> fill)"
      by (rule take_axis_nth)
    moreover have "(case position k (columns t) of Some q \<Rightarrow> rows t ! p ! q | None \<Rightarrow> fill)
        = (case at t i k of Some v \<Rightarrow> v | None \<Rightarrow> fill)"
    proof (cases "position k (columns t)")
      case None
      with Some show ?thesis by (simp add: at_def)
    next
      case (Some q)
      from position_SomeD [OF Some] rowlen [OF p] have "q < length (rows t ! p)" by simp
      with Some \<open>position i (index t) = Some p\<close> p show ?thesis by (simp add: at_def)
    qed
    ultimately show ?thesis using rp by simp
  qed
  with r j lr show ?thesis by (simp add: at_def)
qed

lemma wf_reindexed:
  assumes "wf_frame t"
  shows "wf_frame \<lparr>index = idx, columns = cols,
             rows = take_axis (map (\<lambda>row. take_axis row (columns t) cols fill) (rows t))
                      (index t) idx (replicate (length cols) fill)\<rparr>"
proof -
  let ?f = "\<lambda>row. take_axis row (columns t) cols fill"
  from assms have len: "length (rows t) = length (index t)"
    and rowlen: "\<And>row. row \<in> set (rows t) \<Longrightarrow> length row = length (columns t)"
    by (auto simp: wf_frame_def list_all_iff)
  have "list_all (\<lambda>row. length row = length cols) (map ?f (rows t))"
    using rowlen by (auto simp: list_all_iff take_axis_length)
  then have "list_all (\<lambda>row. length row = length cols)
      (take_axis (map ?f (rows t)) (index t) idx (replicate (length cols) fill))"
    by (rule take_axis_all) simp
  moreover have "length (take_axis (map ?f (rows t)) (index t) idx (replicate (length cols) fill))
      = length idx"
    using len by (intro take_axis_length) simp
  ultimately show ?thesis by (simp add: wf_frame_def)
qed

lemma reindex_ok:
  assumes "unique_labels t" "wf_frame t"
  shows "\<exists>t'. reindex t (index c) (columns c) (BoolV False) = Inr t' \<and>
               shape t' = shape c \<and> reindexed_onto c t t'"
proof -
  let ?t' = "\<lparr>index = index c, columns = columns c,
      rows = take_axis (map (\<lambda>row. take_axis row (columns t) (columns c) (BoolV False)) (rows t))
               (index t) (index c) (replicate (length (columns c)) (BoolV False))\<rparr>"
  have r: "reindex t (index c) (columns c) (BoolV False) = Inr ?t'"
    using assms(1) by (simp add: reindex_def unique_labels_def)
  have s: "shape ?t' = shape c" by (simp add: shape_def)
  have w: "wf_frame ?t'" using assms(2) by (rule wf_reindexed)
  have a: "at ?t' i k = (if i \<in> set (index t) \<and> k \<in> set (columns t)
                     then at t i k else Some (BoolV False))"
    if "i \<in> set (index c)" "k \<in> set (columns c)" for i k
  proof (cases "i \<in> set (index t) \<and> k \<in> set (columns t)")
    case True
    with at_present [OF assms(2), of i k] obtain v where "at t i k = Some v" by blast
    with True at_reindexed [OF assms(2) that] show ?thesis by simp
  next
    case False
    then have "at t i k = None" by (intro at_absent) blast
    with False at_reindexed [OF assms(2) that] show ?thesis by simp
  qed
  have "reindexed_onto c t ?t'"
    unfolding reindexed_onto_def using w a by simp
  with r s show ?thesis by blast
qed

lemma fix_shape_ok:
  assumes "unique_labels t" "wf_frame t"
  shows "\<exists>t'. fix_shape c t = Inr t' \<and> repaired c t t'"
proof (cases "shape t = shape c")
  case True
  then show ?thesis by (simp add: fix_shape_def repaired_def)
next
  case False
  with reindex_ok [OF assms, of c] show ?thesis
    by (auto simp: fix_shape_def repaired_def)
qed

text \<open>
  Claim C3, amended. When \<open>close\<close>, \<open>entries\<close> and \<open>exits\<close> are bound to tables, and the
  two signal tables are well formed with unique row and column labels, validation
  does not fail and the three tables it passes on have the shape of \<open>close\<close>. A signal
  table whose shape differs from that of \<open>close\<close> is reindexed: it gets the index and the
  columns of \<open>close\<close>, the cells whose labels exist in the original keep their value and
  all other cells are \<open>False\<close>. A signal table that already has the shape of \<open>close\<close> is
  passed on unchanged, whatever its labels are.
\<close>

theorem validate_repairs:
  assumes "map_of en ''close'' = Some (DataFrame c)"
    and "map_of en ''entries'' = Some (DataFrame e)"
    and "map_of en ''exits'' = Some (DataFrame x)"
    and "unique_labels e" "wf_frame e" "unique_labels x" "wf_frame x"
  shows "\<exists>e' x'. validate en = Inr (c, e', x') \<and> repaired c e e' \<and> repaired c x x'"
proof -
  from fix_shape_ok [OF assms(4,5), of c] obtain e' where
    e: "fix_shape c e = Inr e'" "repaired c e e'" by blast
  from fix_shape_ok [OF assms(6,7), of c] obtain x' where
    x: "fix_shape c x = Inr x'" "repaired c x x'" by blast
  from assms(1-3) e(1) x(1) have "validate en = Inr (c, e', x')"
    by (simp add: validate_def)
  with e(2) x(2) show ?thesis by blast
qed

theorem validate_repairs_witness:
  "map_of (ex_env ex_narrow ex_same) ''close'' = Some (DataFrame ex_close) \<and>
   map_of (ex_env ex_narrow ex_same) ''entries'' = Some (DataFrame ex_narrow) \<and>
   map_of (ex_env ex_narrow ex_same) ''exits'' = Some (DataFrame ex_same) \<and>
   unique_labels ex_narrow \<and> wf_frame ex_narrow \<and> unique_labels ex_same \<and> wf_frame ex_same \<and>
   shape ex_narrow \<noteq> shape ex_close \<and>
   validate (ex_env ex_narrow ex_same) = Inr (ex_close, ex_narrow_fixed, ex_same) \<and>
   repaired ex_close ex_narrow ex_narrow_fixed \<and> repaired ex_close ex_same ex_same"
proof -
  have h: "map_of (ex_env ex_narrow ex_same) ''close'' = Some (DataFrame ex_close)"
    "map_of (ex_env ex_narrow ex_same) ''entries'' = Some (DataFrame ex_narrow)"
    "map_of (ex_env ex_narrow ex_same) ''exits'' = Some (DataFrame ex_same)"
    "unique_labels ex_narrow" "wf_frame ex_narrow" "unique_labels ex_same" "wf_frame ex_same"
    by code_simp+
  have s: "shape ex_narrow \<noteq> shape ex_close" by code_simp
  have v: "validate (ex_env ex_narrow ex_same) = Inr (ex_close, ex_narrow_fixed, ex_same)"
    by code_simp
  from validate_repairs [OF h] v
  have "repaired ex_close ex_narrow ex_narrow_fixed \<and> repaired ex_close ex_same ex_same"
    by simp
  with h s v show ?thesis by (simp only: simp_thms)
qed

text \<open>
  Claim C3 as stated fails in two ways. A signal table of the shape of \<open>close\<close> is not
  reindexed, so with \<open>entries\<close> of another shape and \<open>exits\<close> of the right shape on other
  labels the validated triple does not have the index and columns of \<open>close\<close>
  throughout. And a shape difference does cause a failure when the table to repair
  has a duplicate label: \<open>reindex\<close> raises.
\<close>

theorem validate_keeps_foreign_labels:
  "validate (ex_env ex_narrow ex_other_labels)
     = Inr (ex_close, ex_narrow_fixed, ex_other_labels) \<and>
   shape ex_narrow \<noteq> shape ex_close \<and>
   index ex_other_labels \<noteq> index ex_close \<and>
   columns ex_other_labels \<noteq> columns ex_close \<and>
   shape ex_duplicate \<noteq> shape ex_close \<and>
   validate (ex_env ex_duplicate ex_same)
     = Inl (Exc ''ValueError'' ''cannot reindex on an axis with duplicate labels'')"
  by code_simp

section \<open>Properties of the fallback strategy\<close>

lemma replicate_update:
  "k < n \<Longrightarrow> (replicate n a)[k := b] = replicate k a @ b # replicate (n - Suc k) a"
proof (induction n arbitrary: k)
  case 0 then show ?case by simp
next
  case (Suc n)
  then show ?case by (cases k) auto
qed

lemma filter_concat_replicate_none:
  "\<forall>v\<in>set r. \<not> P v \<Longrightarrow> filter P (concat (replicate n r)) = []"
  by (induction n) auto

lemma count_true_full_False: "count_true (full_frame (BoolV False) idx cols) = 0"
  by (simp add: count_true_def full_frame_def filter_concat_replicate_none)

lemma count_true_row:
  assumes "k < length idx"
  shows "count_true ((full_frame (BoolV False) idx cols)
           \<lparr>rows := (rows (full_frame (BoolV False) idx cols))
                      [k := replicate (length cols) (BoolV True)]\<rparr>) = length cols"
  using assms
  by (simp add: count_true_def full_frame_def replicate_update filter_concat_replicate_none)

lemma wf_full_frame: "wf_frame (full_frame v idx cols)"
  by (simp add: wf_frame_def full_frame_def list_all_iff)

text \<open>
  Claim C7, amended. When \<open>raw\<close> is bound to a table whose \<open>Close\<close> cross-section has at
  least 11 rows and at least 1 column (and \<open>pd\<close> means pandas), the fallback code runs
  without raising and binds \<open>close\<close> to that cross-section and \<open>entries\<close> and \<open>exits\<close> to
  well-formed tables on the index and columns of \<open>close\<close>. \<open>exits\<close> has no true cell.
  \<open>entries\<close> is true on the whole row at offset 10 and false elsewhere, so it has as
  many true cells as \<open>close\<close> has columns.
\<close>

theorem fallback_triple:
  assumes "map_of en ''raw'' = Some (DataFrame raw)"
    and "lookup_name g en ''pd'' = Some (Module ''pandas'')"
    and "xs_close raw = Inr close"
    and "11 \<le> length (index close)" and "1 \<le> length (columns close)"
  shows "\<exists>entries exits.
           snd (exec_fallback g en) = None \<and>
           bound_frame (fst (exec_fallback g en)) ''close'' = Some close \<and>
           bound_frame (fst (exec_fallback g en)) ''entries'' = Some entries \<and>
           bound_frame (fst (exec_fallback g en)) ''exits'' = Some exits \<and>
           index entries = index close \<and> columns entries = columns close \<and>
           index exits = index close \<and> columns exits = columns close \<and>
           shape entries = shape close \<and> shape exits = shape close \<and>
           wf_frame entries \<and> wf_frame exits \<and>
           rows entries = (replicate (length (index close))
                             (replicate (length (columns close)) (BoolV False)))
                          [10 := replicate (length (columns close)) (BoolV True)] \<and>
           count_true entries = length (columns close) \<and>
           count_true exits = 0"
proof -
  let ?f = "full_frame (BoolV False) (index close) (columns close)"
  let ?e = "?f\<lparr>rows := (rows ?f)[10 := replicate (length (columns close)) (BoolV True)]\<rparr>"
  from assms(4) have lt: "10 < length (index close)" by simp
  have il: "iloc_set_row ?f 10 (BoolV True) = Inr ?e"
    using lt by (simp add: iloc_set_row_def full_frame_def)
  have raw: "lookup_name g en ''raw'' = Some (DataFrame raw)"
    using assms(1) by (simp add: lookup_name_def)
  have pd: "lookup_name g (AList.update ''close'' (DataFrame close) en) ''pd''
      = Some (Module ''pandas'')"
    using assms(2) by (simp add: lookup_name_def update_conv')
  have ex: "exec_fallback g en =
      (AList.update ''entries'' (DataFrame ?e)
         (AList.update ''exits'' (DataFrame ?f)
            (AList.update ''entries'' (DataFrame ?f)
               (AList.update ''close'' (DataFrame close) en))), None)"
    using raw assms(3) pd il by (simp add: exec_fallback_def Let_def)
  have b: "bound_frame (fst (exec_fallback g en)) ''close'' = Some close"
    "bound_frame (fst (exec_fallback g en)) ''entries'' = Some ?e"
    "bound_frame (fst (exec_fallback g en)) ''exits'' = Some ?f"
    by (simp_all add: ex bound_frame_def update_conv')
  have l: "index ?e = index close" "columns ?e = columns close"
    "index ?f = index close" "columns ?f = columns close"
    by (simp_all add: full_frame_def)
  have sh: "shape ?e = shape close" "shape ?f = shape close"
    by (simp_all add: shape_def full_frame_def)
  have w: "wf_frame ?e" "wf_frame ?f"
    by (auto simp: wf_frame_def full_frame_def list_all_iff dest: set_update_subset_insert [THEN subsetD])
  have r: "rows ?e = (replicate (length (index close))
                             (replicate (length (columns close)) (BoolV False)))
                          [10 := replicate (length (columns close)) (BoolV True)]"
    by (simp add: full_frame_def)
  have c: "count_true ?e = length (columns close)" using lt by (rule count_true_row)
  have c0: "count_true ?f = 0" by (rule count_true_full_False)
  from ex b l sh w r c c0 show ?thesis by (intro exI [of _ ?e] exI [of _ ?f]) simp
qed

theorem fallback_triple_witness:
  "map_of [(''raw'', DataFrame ex_raw)] ''raw'' = Some (DataFrame ex_raw) \<and>
   lookup_name preloaded_globals [(''raw'', DataFrame ex_raw)] ''pd'' = Some (Module ''pandas'') \<and>
   xs_close ex_raw = Inr ex_raw_close \<and>
   11 \<le> length (index ex_raw_close) \<and> 1 \<le> length (columns ex_raw_close) \<and>
   (\<exists>entries exits.
      snd (exec_fallback preloaded_globals [(''raw'', DataFrame ex_raw)]) = None \<and>
      bound_frame (fst (exec_fallback preloaded_globals [(''raw'', DataFrame ex_raw)])) ''close''
        = Some ex_raw_close \<and>
      bound_frame (fst (exec_fallback preloaded_globals [(''raw'', DataFrame ex_raw)])) ''entries''
        = Some entries \<and>
      bound_frame (fst (exec_fallback preloaded_globals [(''raw'', DataFrame ex_raw)])) ''exits''
        = Some exits \<and>
      shape entries = shape ex_raw_close \<and> shape exits = shape ex_raw_close \<and>
      count_true entries = length (columns ex_raw_close) \<and> count_true exits = 0)"
proof -
  have h: "map_of [(''raw'', DataFrame ex_raw)] ''raw'' = Some (DataFrame ex_raw)"
    "lookup_name preloaded_globals [(''raw'', DataFrame ex_raw)] ''pd'' = Some (Module ''pandas'')"
    "xs_close ex_raw = Inr ex_raw_close"
    "11 \<le> length (index ex_raw_close)" "1 \<le> length (columns ex_raw_close)"
    by code_simp+
  from fallback_triple [OF h] h show ?thesis by blast
qed

text \<open>
  Claim C7 as stated fails: the assignment to \<open>entries.iloc[10]\<close> sets a whole row, so
  with the two tickers of the example \<open>entries\<close> has two true cells, not one.
\<close>

theorem fallback_entries_two_true:
  "11 \<le> length (index ex_raw_close) \<and> 1 \<le> length (columns ex_raw_close) \<and>
   snd (exec_fallback preloaded_globals [(''raw'', DataFrame ex_raw)]) = None \<and>
   bound_frame (fst (exec_fallback preloaded_globals [(''raw'', DataFrame ex_raw)])) ''close''
     = Some ex_raw_close \<and>
   map_option count_true
       (bound_frame (fst (exec_fallback preloaded_globals [(''raw'', DataFrame ex_raw)])) ''entries'')
     = Some 2"
  by code_simp

section \<open>Properties of the retry loop\<close>

lemma gen_count_append: "gen_count (xs @ ys) = gen_count xs + gen_count ys"
  by (simp add: gen_count_def)

lemma before_fallback_append:
  "\<not> list_ex is_fallback xs \<Longrightarrow> before_fallback (xs @ ys) = xs @ before_fallback ys"
  by (simp add: before_fallback_def list_ex_iff takeWhile_append2)

lemma try_block_shape:
  assumes "try_block w a code g en cash sz = (g', en', r, evs)"
  shows "(g', en') = left_by w a code g en \<and>
         (evs = [EvExec a code g en] \<or>
          (\<exists>c e x. evs = [EvExec a code g en, EvSimulate c e x]))"
  using assms
  by (auto simp: try_block_def left_by_def split: prod.splits option.splits sum.splits)

lemma run_fallback_shape:
  assumes "run_fallback w g en cash sz = (r, fevs)"
  shows "fevs = [EvFallback g en] \<or>
         (\<exists>c e x. fevs = [EvFallback g en, EvSimulate c e x])"
  using assms
  by (auto simp: run_fallback_def
      split: prod.splits option.splits sum.splits pyval.splits if_splits)

lemma try_block_quiet:
  assumes "try_block w a code g en cash sz = (g', en', r, evs)"
  shows "gen_count evs = 0 \<and> \<not> list_ex is_fallback evs"
  using try_block_shape [OF assms] by (auto simp: gen_count_def)

lemma run_fallback_quiet:
  assumes "run_fallback w g en cash sz = (r, fevs)"
  shows "gen_count fevs = 0 \<and> before_fallback fevs = []"
  using run_fallback_shape [OF assms] by (auto simp: gen_count_def before_fallback_def)

lemma attempt_step_Inr:
  assumes "attempt_step w base cash sz m a st = Inr st'"
  shows "a \<noteq> m \<and>
         (\<exists>ext. trace st' = trace st @ ext \<and> gen_count ext = 1 \<and>
                 \<not> list_ex is_fallback ext)"
proof -
  let ?P = "build_prompt base (code_str st) (last_error st) a"
  from assms obtain content where c: "chat_completion w a ?P = Inr content"
    by (auto simp: attempt_step_def Let_def split: sum.splits)
  obtain g' en' r evs where t:
    "try_block w a (clean_generated_code content) (globs st) (env st) cash sz = (g', en', r, evs)"
    by (cases "try_block w a (clean_generated_code content) (globs st) (env st) cash sz") auto
  from assms c t have "a \<noteq> m" and tr: "trace st' = trace st @ ([EvGenerate ?P] @ evs)"
    by (auto simp: attempt_step_def Let_def split: sum.splits prod.splits option.splits if_splits)
  moreover from try_block_quiet [OF t]
  have "gen_count ([EvGenerate ?P] @ evs) = 1" "\<not> list_ex is_fallback ([EvGenerate ?P] @ evs)"
    by (auto simp: gen_count_def)
  ultimately show ?thesis by blast
qed

lemma attempt_step_Inl:
  assumes "attempt_step w base cash sz m a st = Inl (r, tr)"
  shows "\<exists>ext. tr = trace st @ ext \<and> gen_count ext = 1 \<and>
               (list_ex is_fallback ext \<longrightarrow> a = m \<and> gen_count (before_fallback ext) = 1)"
proof -
  let ?P = "build_prompt base (code_str st) (last_error st) a"
  show ?thesis
  proof (cases "chat_completion w a ?P")
    case (Inl e)
    with assms have "tr = trace st @ [EvGenerate ?P]"
      by (simp add: attempt_step_def Let_def)
    then show ?thesis by (auto simp: gen_count_def)
  next
    case (Inr content)
    obtain g' en' res evs where t:
      "try_block w a (clean_generated_code content) (globs st) (env st) cash sz
         = (g', en', res, evs)"
      by (cases "try_block w a (clean_generated_code content) (globs st) (env st) cash sz") auto
    note q = try_block_quiet [OF t]
    from q have nf: "\<not> list_ex is_fallback ([EvGenerate ?P] @ evs)"
      and g1: "gen_count ([EvGenerate ?P] @ evs) = 1"
      by (auto simp: gen_count_def)
    show ?thesis
    proof (cases "\<exists>e. res = Inl e \<and> is_exception e")
      case False
      with assms \<open>chat_completion w a ?P = Inr content\<close> t
      have "tr = trace st @ ([EvGenerate ?P] @ evs)"
        by (cases res) (auto simp: attempt_step_def Let_def)
      with nf g1 show ?thesis by blast
    next
      case True
      then obtain e where e: "res = Inl e" "is_exception e" by blast
      obtain fr fevs where f: "run_fallback w g' en' cash sz = (fr, fevs)"
        by (cases "run_fallback w g' en' cash sz") auto
      note fq = run_fallback_quiet [OF f]
      from assms \<open>chat_completion w a ?P = Inr content\<close> t e f
      have am: "a = m" and tr: "tr = trace st @ (([EvGenerate ?P] @ evs) @ fevs)"
        by (auto simp: attempt_step_def Let_def split: if_splits)
      from g1 fq have "gen_count (([EvGenerate ?P] @ evs) @ fevs) = 1"
        by (simp only: gen_count_append)
      moreover from before_fallback_append [OF nf, of fevs] fq g1
      have "gen_count (before_fallback (([EvGenerate ?P] @ evs) @ fevs)) = 1"
        by simp
      ultimately show ?thesis using am tr by blast
    qed
  qed
qed

lemma retry_loop_trace:
  assumes "retry_loop w base cash sz m a st = (r, tr)" and "a \<le> m + 1"
  shows "\<exists>ext. tr = trace st @ ext \<and> gen_count ext \<le> nat (m + 1 - a) \<and>
               (list_ex is_fallback ext \<longrightarrow> gen_count (before_fallback ext) = nat (m + 1 - a))"
  using assms
proof (induction w base cash sz m a st rule: retry_loop.induct)
  case (1 w base cash sz m a st)
  show ?case
  proof (cases "m < a")
    case True
    with "1.prems" have "tr = trace st"
      by (simp add: retry_loop.simps [of w base cash sz m a st])
    then show ?thesis by (auto simp: gen_count_def)
  next
    case False
    show ?thesis
    proof (cases "attempt_step w base cash sz m a st")
      case (Inl res)
      with False "1.prems" have "attempt_step w base cash sz m a st = Inl (r, tr)"
        by (simp add: retry_loop.simps [of w base cash sz m a st])
      from attempt_step_Inl [OF this] obtain ext where
        e: "tr = trace st @ ext" "gen_count ext = 1"
        "list_ex is_fallback ext \<longrightarrow> a = m \<and> gen_count (before_fallback ext) = 1"
        by blast
      from False e(2) have "gen_count ext \<le> nat (m + 1 - a)" by simp
      moreover from e(3) have
        "list_ex is_fallback ext \<longrightarrow> gen_count (before_fallback ext) = nat (m + 1 - a)"
        by auto
      ultimately show ?thesis using e(1) by blast
    next
      case (Inr st')
      with False "1.prems" have l: "retry_loop w base cash sz m (a + 1) st' = (r, tr)"
        by (simp add: retry_loop.simps [of w base cash sz m a st])
      from False have "a + 1 \<le> m + 1" by simp
      from "1.IH" [OF False Inr l this] obtain ext' where
        e': "tr = trace st' @ ext'" "gen_count ext' \<le> nat (m + 1 - (a + 1))"
        "list_ex is_fallback ext' \<longrightarrow> gen_count (before_fallback ext') = nat (m + 1 - (a + 1))"
        by blast
      from attempt_step_Inr [OF Inr] obtain ext where
        e: "trace st' = trace st @ ext" "gen_count ext = 1" "\<not> list_ex is_fallback ext"
        by blast
      have t: "tr = trace st @ (ext @ ext')" using e(1) e'(1) by simp
      have g: "gen_count (ext @ ext') \<le> nat (m + 1 - a)"
        using e(2) e'(2) False by (simp add: gen_count_append)
      have f: "gen_count (before_fallback (ext @ ext')) = nat (m + 1 - a)"
        if "list_ex is_fallback (ext @ ext')"
      proof -
        from that e(3) have "list_ex is_fallback ext'" by (auto simp: list_ex_iff)
        with e'(3) have "gen_count (before_fallback ext') = nat (m + 1 - (a + 1))" by simp
        with e(2) False show ?thesis
          by (simp add: before_fallback_append [OF e(3)] gen_count_append)
      qed
      from t g f show ?thesis by blast
    qed
  qed
qed


lemma find_append_none: "\<forall>x\<in>set xs. \<not> P x \<Longrightarrow> find P (xs @ ys) = find P ys"
  by (induction xs) auto

lemma find_none: "\<forall>x\<in>set xs. \<not> P x \<Longrightarrow> find P xs = None"
  by (induction xs) auto

lemma attempt_step_trace:
  "(\<exists>e. chat_completion w a (build_prompt base (code_str st) (last_error st) a) = Inl e \<and>
        attempt_step w base cash sz m a st =
          Inl (Raise e, trace st @ [EvGenerate (build_prompt base (code_str st) (last_error st) a)])) \<or>
   (\<exists>content rest.
      chat_completion w a (build_prompt base (code_str st) (last_error st) a) = Inr content \<and>
      step_trace (attempt_step w base cash sz m a st) =
        trace st @ EvGenerate (build_prompt base (code_str st) (last_error st) a) #
          EvExec a (clean_generated_code content) (globs st) (env st) # rest)"
proof -
  let ?P = "build_prompt base (code_str st) (last_error st) a"
  show ?thesis
  proof (cases "chat_completion w a ?P")
    case (Inl e)
    then show ?thesis by (simp add: attempt_step_def Let_def)
  next
    case (Inr content)
    let ?code = "clean_generated_code content"
    obtain g' en' res evs where t:
      "try_block w a ?code (globs st) (env st) cash sz = (g', en', res, evs)"
      by (cases "try_block w a ?code (globs st) (env st) cash sz") auto
    from try_block_shape [OF t] obtain rest where
      evs: "evs = EvExec a ?code (globs st) (env st) # rest" by auto
    obtain fr fevs where f: "run_fallback w g' en' cash sz = (fr, fevs)"
      by (cases "run_fallback w g' en' cash sz") auto
    have "\<exists>rest'. step_trace (attempt_step w base cash sz m a st) =
            trace st @ EvGenerate ?P # EvExec a ?code (globs st) (env st) # rest'"
      using Inr t evs f
      by (cases res) (simp_all add: attempt_step_def Let_def)
    then obtain rest' where "step_trace (attempt_step w base cash sz m a st) =
            trace st @ EvGenerate ?P # EvExec a ?code (globs st) (env st) # rest'" ..
    with Inr have "chat_completion w a ?P = Inr content \<and>
        step_trace (attempt_step w base cash sz m a st) =
            trace st @ EvGenerate ?P # EvExec a ?code (globs st) (env st) # rest'"
      by (intro conjI)
    then show ?thesis by (intro disjI2 exI)
  qed
qed

lemma retry_loop_first_exec:
  assumes "retry_loop w base cash sz m a st = (r, tr)"
    and "\<forall>ev\<in>set (trace st). \<not> is_exec ev"
    and "find is_exec tr = Some ev"
  shows "\<exists>code. ev = EvExec a code (globs st) (env st)"
proof (cases "m < a")
  case True
  with assms(1) have "tr = trace st"
    by (simp add: retry_loop.simps [of w base cash sz m a st])
  with assms(2,3) show ?thesis by (simp add: find_none)
next
  case False
  let ?P = "build_prompt base (code_str st) (last_error st) a"
  have ext: "\<exists>ext. tr = step_trace (attempt_step w base cash sz m a st) @ ext"
  proof (cases "attempt_step w base cash sz m a st")
    case (Inl res)
    with False assms(1) show ?thesis
      by (cases res) (simp add: retry_loop.simps [of w base cash sz m a st])
  next
    case (Inr st')
    with False assms(1) have "retry_loop w base cash sz m (a + 1) st' = (r, tr)"
      by (simp add: retry_loop.simps [of w base cash sz m a st])
    from retry_loop_trace [OF this] False Inr show ?thesis by auto
  qed
  from attempt_step_trace [where w = w and base = base and cash = cash and sz = sz
      and m = m and a = a and st = st]
  show ?thesis
  proof (elim disjE exE conjE)
    fix e
    assume "chat_completion w a ?P = Inl e"
      and s: "attempt_step w base cash sz m a st = Inl (Raise e, trace st @ [EvGenerate ?P])"
    with False assms(1) have "tr = trace st @ [EvGenerate ?P]"
      by (simp add: retry_loop.simps [of w base cash sz m a st])
    with assms(2,3) show ?thesis by (simp add: find_append_none)
  next
    fix content rest
    assume "step_trace (attempt_step w base cash sz m a st) =
        trace st @ EvGenerate ?P #
          EvExec a (clean_generated_code content) (globs st) (env st) # rest"
    with ext obtain ext' where "tr = trace st @ (EvGenerate ?P #
          EvExec a (clean_generated_code content) (globs st) (env st) # rest @ ext')"
      by auto
    with assms(2,3) show ?thesis by (auto simp: find_append_none)
  qed
qed

lemma auto_backtest_unfold:
  assumes "auto_backtest w p t cash sz per i m = (r, tr)"
  shows "(gen_count tr = 0 \<and> \<not> list_ex is_fallback tr \<and>
          (\<forall>ev\<in>set tr. \<not> is_exec ev)) \<or>
         (\<exists>raw t0. gen_count t0 = 0 \<and> \<not> list_ex is_fallback t0 \<and>
            (\<forall>ev\<in>set t0. \<not> is_exec ev) \<and>
            retry_loop w (base_prompt (instructions w) p) cash sz m 1
              \<lparr>code_str = None, last_error = [], globs = preloaded_globals,
                env = [(''raw'', raw)], trace = t0\<rparr> = (r, tr))"
proof (cases "api_key w")
  case None
  with assms have "tr = []" by (simp add: auto_backtest_def)
  then show ?thesis by (simp add: gen_count_def)
next
  case (Some key)
  show ?thesis
  proof (cases "read_csv w ''ind_nifty500list.csv''")
    case (Inl e)
    with Some assms have "tr = [EvReadCsv ''ind_nifty500list.csv'']"
      by (simp add: auto_backtest_def)
    then show ?thesis by (simp add: gen_count_def)
  next
    case (Inr col)
    let ?ts = "map ns_suffix (unique (map (str_upper w) (dropna col)))"
    let ?t0 = "[EvReadCsv ''ind_nifty500list.csv'', EvDownload ?ts per i]"
    have q: "gen_count ?t0 = 0 \<and> \<not> list_ex is_fallback ?t0 \<and>
        (\<forall>ev\<in>set ?t0. \<not> is_exec ev)"
      by (simp add: gen_count_def)
    show ?thesis
    proof (cases "download w ?ts per i")
      case (Inl e)
      with Some Inr assms have "tr = ?t0" by (simp add: auto_backtest_def Let_def)
      with q show ?thesis by simp
    next
      case (Inr raw)
      with Some \<open>read_csv w ''ind_nifty500list.csv'' = Inr col\<close> assms
      have "retry_loop w (base_prompt (instructions w) p) cash sz m 1
              \<lparr>code_str = None, last_error = [], globs = preloaded_globals,
                env = [(''raw'', raw)], trace = ?t0\<rparr> = (r, tr)"
        by (simp add: auto_backtest_def Let_def)
      with q show ?thesis by blast
    qed
  qed
qed



section \<open>The last attempt and the fallback\<close>








section \<open>The local names across attempts\<close>




section \<open>The namespace of generated code\<close>

lemma chained_append:
  "chained_from w cur (xs @ ys) =
     (chained_from w cur xs \<and> chained_from w (cur_after w cur xs) ys)"
proof (induction xs arbitrary: cur)
  case Nil show ?case by simp
next
  case (Cons ev xs) then show ?case by (cases ev) auto
qed

lemma cur_after_append: "cur_after w cur (xs @ ys) = cur_after w (cur_after w cur xs) ys"
proof (induction xs arbitrary: cur)
  case Nil show ?case by simp
next
  case (Cons ev xs) then show ?case by (cases ev) auto
qed

lemma chained_weaken: "chained_from w (Some c) tr \<Longrightarrow> chained_from w None tr"
proof (induction tr arbitrary: c)
  case Nil show ?case by simp
next
  case (Cons ev tr) then show ?case by (cases ev) auto
qed

lemma try_block_chain:
  assumes "try_block w a code g en cash sz = (g', en', r, evs)"
  shows "chained_from w (Some (g, en)) evs \<and> cur_after w (Some (g, en)) evs = Some (g', en')"
  using try_block_shape [OF assms] by auto

lemma run_fallback_chain:
  assumes "run_fallback w g en cash sz = (r, fevs)"
  shows "chained_from w (Some (g, en)) fevs"
  using run_fallback_shape [OF assms] by auto

lemma attempt_step_chain:
  "\<exists>ext. step_trace (attempt_step w base cash sz m a st) = trace st @ ext \<and>
         chained_from w (Some (globs st, env st)) ext \<and>
         (\<forall>st'. attempt_step w base cash sz m a st = Inr st' \<longrightarrow>
            cur_after w (Some (globs st, env st)) ext = Some (globs st', env st'))"
proof -
  let ?P = "build_prompt base (code_str st) (last_error st) a"
  let ?cur = "Some (globs st, env st)"
  show ?thesis
  proof (cases "chat_completion w a ?P")
    case (Inl e)
    then have "attempt_step w base cash sz m a st = Inl (Raise e, trace st @ [EvGenerate ?P])"
      by (simp add: attempt_step_def Let_def)
    then show ?thesis by simp
  next
    case (Inr content)
    note chat = Inr
    let ?code = "clean_generated_code content"
    obtain g' en' res evs where t:
      "try_block w a ?code (globs st) (env st) cash sz = (g', en', res, evs)"
      by (cases "try_block w a ?code (globs st) (env st) cash sz") auto
    note tc = try_block_chain [OF t]
    obtain fr fevs where f: "run_fallback w g' en' cash sz = (fr, fevs)"
      by (cases "run_fallback w g' en' cash sz") auto
    note fc = run_fallback_chain [OF f]
    have c1: "chained_from w ?cur ([EvGenerate ?P] @ evs)"
      and a1: "cur_after w ?cur ([EvGenerate ?P] @ evs) = Some (g', en')"
      using tc by simp_all
    have c2: "chained_from w ?cur (([EvGenerate ?P] @ evs) @ fevs)"
      using c1 a1 fc by (simp only: chained_append simp_thms)
    show ?thesis
    proof (cases res)
      case (Inr pf)
      with chat t have "attempt_step w base cash sz m a st
          = Inl (Return (Some pf), trace st @ ([EvGenerate ?P] @ evs))"
        by (simp add: attempt_step_def Let_def)
      with c1 show ?thesis by (intro exI [of _ "[EvGenerate ?P] @ evs"]) simp
    next
      case (Inl e)
      show ?thesis
      proof (cases "is_exception e")
        case False
        with Inl chat t have "attempt_step w base cash sz m a st
            = Inl (Raise e, trace st @ ([EvGenerate ?P] @ evs))"
          by (simp add: attempt_step_def Let_def)
        with c1 show ?thesis by (intro exI [of _ "[EvGenerate ?P] @ evs"]) simp
      next
        case True
        show ?thesis
        proof (cases "a = m")
          case eq: True
          with True Inl chat t f have "attempt_step w base cash sz m a st
              = Inl (after_fallback m (snd (classify (str_exn e))) fr,
                     trace st @ (([EvGenerate ?P] @ evs) @ fevs))"
            by (simp add: attempt_step_def Let_def)
          with c2 show ?thesis
            by (intro exI [of _ "([EvGenerate ?P] @ evs) @ fevs"]) simp
        next
          case ne: False
          with True Inl chat t have "attempt_step w base cash sz m a st
              = Inr \<lparr>code_str = Some ?code, last_error = snd (classify (str_exn e)),
                     globs = g', env = en', trace = trace st @ ([EvGenerate ?P] @ evs)\<rparr>"
            by (simp add: attempt_step_def Let_def)
          with c1 a1 show ?thesis by (intro exI [of _ "[EvGenerate ?P] @ evs"]) simp
        qed
      qed
    qed
  qed
qed

lemma retry_loop_chain:
  assumes "retry_loop w base cash sz m a st = (r, tr)"
  shows "\<exists>ext. tr = trace st @ ext \<and> chained_from w (Some (globs st, env st)) ext"
  using assms
proof (induction w base cash sz m a st rule: retry_loop.induct)
  case (1 w base cash sz m a st)
  show ?case
  proof (cases "m < a")
    case True
    with "1.prems" have "tr = trace st"
      by (simp add: retry_loop.simps [of w base cash sz m a st])
    then show ?thesis by simp
  next
    case False
    from attempt_step_chain [of w base cash sz m a st] obtain ext where
      e: "step_trace (attempt_step w base cash sz m a st) = trace st @ ext"
      "chained_from w (Some (globs st, env st)) ext"
      "\<forall>st'. attempt_step w base cash sz m a st = Inr st' \<longrightarrow>
          cur_after w (Some (globs st, env st)) ext = Some (globs st', env st')"
      by blast
    show ?thesis
    proof (cases "attempt_step w base cash sz m a st")
      case (Inl res)
      with False "1.prems" have "attempt_step w base cash sz m a st = Inl (r, tr)"
        by (simp add: retry_loop.simps [of w base cash sz m a st])
      with e(1,2) show ?thesis by auto
    next
      case (Inr st')
      with False "1.prems" have l: "retry_loop w base cash sz m (a + 1) st' = (r, tr)"
        by (simp add: retry_loop.simps [of w base cash sz m a st])
      from "1.IH" [OF False Inr l] obtain ext' where
        e': "tr = trace st' @ ext'" "chained_from w (Some (globs st', env st')) ext'"
        by blast
      from e(1) Inr have t: "trace st' = trace st @ ext" by simp
      from e(3) Inr have "cur_after w (Some (globs st, env st)) ext = Some (globs st', env st')"
        by simp
      with e(2) e'(2) have "chained_from w (Some (globs st, env st)) (ext @ ext')"
        by (simp add: chained_append)
      with t e'(1) show ?thesis by auto
    qed
  qed
qed

lemma auto_backtest_chain:
  "chained_from w None (snd (auto_backtest w p t cash sz per i m))"
proof -
  obtain r tr where ab: "auto_backtest w p t cash sz per i m = (r, tr)"
    by (cases "auto_backtest w p t cash sz per i m") auto
  have none: "chained_from w cur xs" if "\<forall>ev\<in>set xs. \<not> is_exec ev \<and> \<not> is_fallback ev"
    for cur and xs :: "event list"
    using that
  proof (induction xs)
    case Nil show ?case by simp
  next
    case (Cons ev xs) then show ?case by (cases ev) auto
  qed
  have keep: "cur_after w cur xs = cur" if "\<forall>ev\<in>set xs. \<not> is_exec ev"
    for cur and xs :: "event list"
    using that
  proof (induction xs)
    case Nil show ?case by simp
  next
    case (Cons ev xs) then show ?case by (cases ev) auto
  qed
  from auto_backtest_unfold [OF ab] have "chained_from w None tr"
  proof (elim disjE exE conjE)
    assume "\<not> list_ex is_fallback tr" "\<forall>ev\<in>set tr. \<not> is_exec ev"
    then show ?thesis by (intro none) (auto simp: list_ex_iff)
  next
    fix raw t0
    assume t0: "\<not> list_ex is_fallback t0" "\<forall>ev\<in>set t0. \<not> is_exec ev"
      and l: "retry_loop w (base_prompt (instructions w) p) cash sz m 1
                \<lparr>code_str = None, last_error = [], globs = preloaded_globals,
                  env = [(''raw'', raw)], trace = t0\<rparr> = (r, tr)"
    from retry_loop_chain [OF l] obtain ext where
      e: "tr = t0 @ ext" "chained_from w (Some (preloaded_globals, [(''raw'', raw)])) ext"
      by auto
    from t0 have "chained_from w None t0" by (intro none) (auto simp: list_ex_iff)
    moreover from t0 have "cur_after w None t0 = None" by (intro keep) simp
    moreover from e(2) have "chained_from w None ext" by (rule chained_weaken)
    ultimately show ?thesis using e(1) by (simp add: chained_append)
  qed
  with ab show ?thesis by simp
qed

lemma auto_backtest_first_exec:
  assumes "find is_exec (snd (auto_backtest w p t cash sz per i m)) = Some ev"
  shows "\<exists>code raw. ev = EvExec 1 code preloaded_globals [(''raw'', raw)]"
proof -
  obtain r tr where ab: "auto_backtest w p t cash sz per i m = (r, tr)"
    by (cases "auto_backtest w p t cash sz per i m") auto
  with assms have f: "find is_exec tr = Some ev" by simp
  from auto_backtest_unfold [OF ab] show ?thesis
  proof (elim disjE exE conjE)
    assume "\<forall>ev\<in>set tr. \<not> is_exec ev"
    with f show ?thesis by (simp add: find_none)
  next
    fix raw t0
    assume t0: "\<forall>ev\<in>set t0. \<not> is_exec ev"
      and l: "retry_loop w (base_prompt (instructions w) p) cash sz m 1
                \<lparr>code_str = None, last_error = [], globs = preloaded_globals,
                  env = [(''raw'', raw)], trace = t0\<rparr> = (r, tr)"
    from retry_loop_first_exec [OF l _ f] t0 show ?thesis by auto
  qed
qed

text \<open>
  Claim C6, amended. The dictionary of globals is built with exactly the names
  \<open>__builtins__\<close>, \<open>pd\<close>, \<open>yf\<close>, \<open>vbt\<close> and \<open>np\<close>, and \<open>__builtins__\<close> is bound to the
  builtins of the running process. The first generated code runs with exactly these
  names and \<open>raw\<close> visible. Every later \<open>exec\<close>, of generated code and of the fallback
  code, is given the same two dictionaries in the state in which the \<open>exec\<close> before it
  left them; nothing restores them, so a name that generated code adds or rebinds
  stays visible.
\<close>

theorem exec_namespace:
  "set (map fst preloaded_globals) = {''__builtins__'', ''pd'', ''yf'', ''vbt'', ''np''} \<and>
   map_of preloaded_globals ''__builtins__'' = Some Builtins \<and>
   (\<forall>a code g ns.
      find is_exec (snd (auto_backtest w p t cash sz per i m)) = Some (EvExec a code g ns) \<longrightarrow>
      a = 1 \<and> g = preloaded_globals \<and> (\<exists>raw. ns = [(''raw'', raw)]) \<and>
      visible_names g ns = {''__builtins__'', ''pd'', ''yf'', ''vbt'', ''np'', ''raw''}) \<and>
   chained_from w None (snd (auto_backtest w p t cash sz per i m))"
proof (intro conjI allI impI)
  show "set (map fst preloaded_globals) = {''__builtins__'', ''pd'', ''yf'', ''vbt'', ''np''}"
    by (simp add: preloaded_globals_def)
  show "map_of preloaded_globals ''__builtins__'' = Some Builtins"
    by (simp add: preloaded_globals_def)
  show "chained_from w None (snd (auto_backtest w p t cash sz per i m))"
    by (rule auto_backtest_chain)
next
  fix a code g ns
  assume "find is_exec (snd (auto_backtest w p t cash sz per i m)) = Some (EvExec a code g ns)"
  from auto_backtest_first_exec [OF this] obtain raw where
    r: "a = 1" "g = preloaded_globals" "ns = [(''raw'', raw)]" by auto
  then show "a = 1" "g = preloaded_globals" "\<exists>raw. ns = [(''raw'', raw)]" by auto
  from r show "visible_names g ns = {''__builtins__'', ''pd'', ''yf'', ''vbt'', ''np'', ''raw''}"
    by (auto simp: visible_names_def preloaded_globals_def)
qed

theorem exec_namespace_witness:
  "find is_exec (snd (auto_backtest ex_world_helper ''buy low'' [''X''] 1000 2 ''24mo'' ''1d'' 2))
     = Some (EvExec 1 ''global helper\<newline>helper = 1\<newline>boom()'' preloaded_globals
               [(''raw'', DataFrame ex_raw)]) \<and>
   visible_names preloaded_globals [(''raw'', DataFrame ex_raw)]
     = {''__builtins__'', ''pd'', ''yf'', ''vbt'', ''np'', ''raw''} \<and>
   chained_from ex_world_helper None
     (snd (auto_backtest ex_world_helper ''buy low'' [''X''] 1000 2 ''24mo'' ''1d'' 2)) \<and>
   EvExec 2 ''global helper\<newline>helper = 1\<newline>boom()''
       (preloaded_globals @ [(''helper'', Object ''int'')]) [(''raw'', DataFrame ex_raw)]
     \<in> set (snd (auto_backtest ex_world_helper ''buy low'' [''X''] 1000 2 ''24mo'' ''1d'' 2)) \<and>
   EvFallback (preloaded_globals @ [(''helper'', Object ''int'')]) [(''raw'', DataFrame ex_raw)]
     \<in> set (snd (auto_backtest ex_world_helper ''buy low'' [''X''] 1000 2 ''24mo'' ''1d'' 2))"
proof -
  have f: "find is_exec
      (snd (auto_backtest ex_world_helper ''buy low'' [''X''] 1000 2 ''24mo'' ''1d'' 2))
     = Some (EvExec 1 ''global helper\<newline>helper = 1\<newline>boom()'' preloaded_globals
               [(''raw'', DataFrame ex_raw)])"
    by code_simp
  have e: "EvExec 2 ''global helper\<newline>helper = 1\<newline>boom()''
       (preloaded_globals @ [(''helper'', Object ''int'')]) [(''raw'', DataFrame ex_raw)]
     \<in> set (snd (auto_backtest ex_world_helper ''buy low'' [''X''] 1000 2 ''24mo'' ''1d'' 2))"
    by code_simp
  have b: "EvFallback (preloaded_globals @ [(''helper'', Object ''int'')])
       [(''raw'', DataFrame ex_raw)]
     \<in> set (snd (auto_backtest ex_world_helper ''buy low'' [''X''] 1000 2 ''24mo'' ''1d'' 2))"
    by code_simp
  from exec_namespace [of ex_world_helper "''buy low''" "[''X'']" 1000 2 "''24mo''" "''1d''" 2] f
  have "visible_names preloaded_globals [(''raw'', DataFrame ex_raw)]
     = {''__builtins__'', ''pd'', ''yf'', ''vbt'', ''np'', ''raw''} \<and>
   chained_from ex_world_helper None
     (snd (auto_backtest ex_world_helper ''buy low'' [''X''] 1000 2 ''24mo'' ''1d'' 2))"
    by blast
  with f e b show ?thesis by (simp only: simp_thms)
qed

text \<open>
  Claim C6 as stated fails: the name \<open>__builtins__\<close>, bound to the builtins of the
  process, is visible to the generated code and is not among the raw price table and
  the numeric-table, data-fetch and backtest-simulation library bindings. A global name
  that the code of attempt 1 adds is visible to the code of attempt 2 as well.
\<close>

theorem builtins_visible:
  "find is_exec (snd (auto_backtest ex_world ''buy low'' [''X''] 1000 2 ''24mo'' ''1d'' 2))
     = Some (EvExec 1 ''boom()'' preloaded_globals [(''raw'', DataFrame ex_raw)]) \<and>
   ''__builtins__'' \<in> visible_names preloaded_globals [(''raw'', DataFrame ex_raw)] \<and>
   map_of preloaded_globals ''__builtins__'' = Some Builtins \<and>
   ''__builtins__'' \<notin> set spec_allow_list \<and>
   visible_names preloaded_globals [(''raw'', DataFrame ex_raw)] \<noteq> set spec_allow_list \<and>
   EvExec 2 ''global helper\<newline>helper = 1\<newline>boom()''
       (preloaded_globals @ [(''helper'', Object ''int'')]) [(''raw'', DataFrame ex_raw)]
     \<in> set (snd (auto_backtest ex_world_helper ''buy low'' [''X''] 1000 2 ''24mo'' ''1d'' 2)) \<and>
   ''helper'' \<in> visible_names (preloaded_globals @ [(''helper'', Object ''int'')])
                  [(''raw'', DataFrame ex_raw)] \<and>
   ''helper'' \<notin> set spec_allow_list"
  by code_simp

section \<open>The \<open>tickers\<close> parameter\<close>

text \<open>
  Claim C10. The result of \<open>auto_backtest\<close> and every call it makes are the same for
  any two values of \<open>tickers\<close>: the name is rebound to the symbols of the CSV file
  before the download.
\<close>

theorem tickers_ignored:
  "auto_backtest w user_prompt tickers1 total_cash sz period interval max_retries =
   auto_backtest w user_prompt tickers2 total_cash sz period interval max_retries"
  by (simp add: auto_backtest_def)

theorem tickers_ignored_witness:
  "auto_backtest ex_world ''buy low'' [''X''] 1000 2 ''24mo'' ''1d'' 2 =
   auto_backtest ex_world ''buy low'' [''Y.NS'', ''Z.NS''] 1000 2 ''24mo'' ''1d'' 2 \<and>
   EvDownload [''A.NS'', ''B.NS''] ''24mo'' ''1d''
     \<in> set (snd (auto_backtest ex_world ''buy low'' [''X''] 1000 2 ''24mo'' ''1d'' 2))"
proof -
  have d: "EvDownload [''A.NS'', ''B.NS''] ''24mo'' ''1d''
     \<in> set (snd (auto_backtest ex_world ''buy low'' [''X''] 1000 2 ''24mo'' ''1d'' 2))"
    by code_simp
  from tickers_ignored [of ex_world "''buy low''" "[''X'']" 1000 2 "''24mo''" "''1d''" 2
      "[''Y.NS'', ''Z.NS'']"] d
  show ?thesis by (simp only: simp_thms)
qed


end
